theory Spec2Isabelle
  imports Main "HOL-Library.Word" "HOL-Library.Char_ord" "HOL-Library.List_Lexorder"
begin

section \<open>Expressions, bindings and aggregations\<close>

text \<open>
  The planner (package plan) lowers a logical trace (package pir) to a tree of physical
  operators. Go's int and int64 are both 64 bits wide on the supported platform (amd64),
  so the conversion \<open>int(x)\<close> of an int64 is the identity on 64-bit words.
\<close>

type_synonym int64 = "64 word"

text \<open>
  Modelled from the spec: the declarations of package expr are missing. Expression nodes
  are values of the interface expr.Node; the lowering only looks at their dynamic type
  (the literal kinds, paths, UNPIVOT, the star), so a node is a tagged value. \<open>Other\<close>
  stands for every node kind the lowering does not distinguish (comparisons,
  arithmetic, calls ...).
\<close>

datatype node =
    Bool bool
  | Integer int64
  | Rational int int
  | Float int64
  | String string
  | Path string
  | Unpivot string
  | Star
  | Other string

text \<open>expr.Table is a binding of a table expression; expr.Binding binds an expression
  to a result name (method Result).\<close>

datatype Table = Table (tbl_Expr: node) (tbl_As: string)

datatype Binding = Binding (bind_Expr: node) (bind_Result: string)

text \<open>expr.Aggregate and vm.AggBinding; vm.Aggregation is a slice of AggBinding.\<close>

datatype Aggregate = Aggregate (agg_Op: nat) (Inner: node) (agg_Filter: "node option")

datatype AggBinding = AggBinding (agg_Expr: Aggregate) (agg_Result: string)

type_synonym Aggregation = "AggBinding list"

text \<open>expr.Order, one column of an ORDER BY clause; plan.OrderByColumn and plan.HashOrder
  are their lowered forms.\<close>

datatype Order = Order (Column: node) (Desc: bool) (NullsLast: bool)

datatype OrderByColumn = OrderByColumn (obc_Node: node) (obc_Desc: bool) (obc_NullsLast: bool)

datatype HashOrder = HashOrder (ho_Column: nat) (ho_Desc: bool) (ho_NullsLast: bool)

section \<open>Errors\<close>

text \<open>
  \<open>reject msg\<close> is \<open>fmt.Errorf("%w: %s", ErrNotSupported, msg)\<close>: the only errors that
  wrap the sentinel ErrNotSupported. \<open>Errorf\<close> is a plain \<open>fmt.Errorf\<close> with its format
  string and its expression arguments. \<open>External\<close> is an error returned by the
  environment or the splitter, passed on unchanged. \<open>Panic\<close> is a run-time panic.
\<close>

datatype error =
    ErrNotSupported string
  | Errorf string "node list"
  | External string
  | Panic string

definition reject :: "string \<Rightarrow> error" where
  "reject msg = ErrNotSupported msg"

section \<open>Physical operators\<close>

datatype UploadFS = UploadFS string

datatype Key = Key "8 word list"

text \<open>
  Modelled from the spec: the declarations of the operator structs are missing. The
  operators are those of the spec's data model, with the fields the lowering reads and
  writes. The arguments are the struct fields, in this order:
  Leaf: Input. FilterOp (plan.Filter): From, Expr. Project: From, Using.
  Distinct: From, Fields, Limit. SimpleAggregate: From, Outputs. CountStar: From, As.
  HashAggregate: From, Agg, By, OrderBy, Limit. OrderBy: From, Columns, Limit, Offset.
  Limit: From, Num. Unnest: From, PivotField, InnerProject, OuterProject, InnerMatch.
  UnionMap: From, Orig, Sub. OutputPart: From, Basename, Store.
  OutputIndex: From, Table, Basename, Store, Key.
  A freshly built operator has the zero value in every field that is not set.
\<close>

datatype 's Op =
    Leaf nat
  | FilterOp "'s Op" node
  | Project "'s Op" "Binding list"
  | Distinct "'s Op" "node list" int64
  | SimpleAggregate "'s Op" Aggregation
  | CountStar "'s Op" string
  | HashAggregate "'s Op" Aggregation "Binding list" "HashOrder list" int64
  | OrderBy "'s Op" "OrderByColumn list" int64 int64
  | Limit "'s Op" int64
  | Unnest "'s Op" node "Binding list" "Binding list" "node option"
  | UnionMap "'s Op" nat "'s list"
  | OutputPart "'s Op" string UploadFS
  | OutputIndex "'s Op" node string UploadFS "Key option"
  | NoOutput
  | DummyOutput

section \<open>Lowering of single steps\<close>

text \<open>
  The upstream operator \<open>from\<close> is a pointer in the source and some lowerings write
  to the object it points to. Such a lowering returns a pair: the result of
  the call (an error or the operator returned) and the object \<open>from\<close> points to as it is
  after the call. When the source returns the pointer \<open>from\<close> itself, the operator
  returned is that object.
\<close>

fun lowerLimit :: "int64 \<Rightarrow> int64 \<Rightarrow> 's Op \<Rightarrow> (error + 's Op) \<times> 's Op" where
  "lowerLimit Count Offset from =
     (if Count = 0 then (Inr NoOutput, from)
      else case from of
        HashAggregate f agg by ob l \<Rightarrow>
          (let f' = HashAggregate f agg by ob Count in
           if Offset \<noteq> 0 then (Inl (reject ''non-zero OFFSET of hash aggregate result''), f')
           else (Inr f', f'))
      | OrderBy f cols l off \<Rightarrow>
          (let f' = OrderBy f cols Count Offset in (Inr f', f'))
      | Distinct f fields l \<Rightarrow>
          (if Offset \<noteq> 0 then (Inl (reject ''non-zero OFFSET of distinct result''), from)
           else (let f' = Distinct f fields Count in (Inr f', f')))
      | _ \<Rightarrow>
          (if Offset \<noteq> 0
           then (Inl (reject ''OFFSET without GROUP BY/ORDER BY not implemented''), from)
           else (Inr (Limit from Count), from)))"

text \<open>
  The functions of package expr that the lowering calls are not part of the planner; they
  are parameters of the model: Table.Equals, expr.Equal (on possibly absent nodes),
  expr.Equivalent and expr.IsIdentifier.
\<close>

record expr_pkg =
  Equals :: "Table \<Rightarrow> Table \<Rightarrow> bool"
  Equal :: "node option \<Rightarrow> node option \<Rightarrow> bool"
  Equivalent :: "node \<Rightarrow> node \<Rightarrow> bool"
  IsIdentifier :: "node \<Rightarrow> string \<Rightarrow> bool"

text \<open>lowerIterValue: the arguments are in.Wildcard(), in.Value, in.InnerBind(),
  in.OuterBind() and in.Filter.\<close>

fun lowerIterValue ::
  "bool \<Rightarrow> node \<Rightarrow> Binding list \<Rightarrow> Binding list \<Rightarrow> node option \<Rightarrow> 's Op \<Rightarrow> error + 's Op" where
  "lowerIterValue wildcard val innerBind outerBind filt from =
     (if wildcard then Inl (reject ''cannot project '*' from a cross-join'')
      else case val of
        Path p \<Rightarrow> Inr (Unnest from (Path p) innerBind outerBind filt)
      | Unpivot u \<Rightarrow> Inl (reject ''UNPIVOT is not supported yet'')
      | _ \<Rightarrow> Inl (reject ''cross-join on non-path nor UNPIVOT expression''))"

definition lowerFilter :: "node \<Rightarrow> 's Op \<Rightarrow> error + 's Op" where
  "lowerFilter Where from = Inr (FilterOp from Where)"

definition lowerDistinct :: "node list \<Rightarrow> 's Op \<Rightarrow> error + 's Op" where
  "lowerDistinct Columns from = Inr (Distinct from Columns 0)"

definition lowerBind :: "Binding list \<Rightarrow> 's Op \<Rightarrow> error + 's Op" where
  "lowerBind Bindings from = Inr (Project from Bindings)"

fun iscountstar :: "Aggregation \<Rightarrow> bool" where
  "iscountstar [agg] =
     (if agg_Filter (agg_Expr agg) \<noteq> None then False
      else (case Inner (agg_Expr agg) of Star \<Rightarrow> True | _ \<Rightarrow> False))"
| "iscountstar a = False"

text \<open>in.GroupBy is a slice that is compared with nil: \<open>None\<close> is the nil slice.\<close>

fun lowerAggregate :: "Aggregation \<Rightarrow> Binding list option \<Rightarrow> 's Op \<Rightarrow> error + 's Op" where
  "lowerAggregate Agg None from =
     (if iscountstar Agg then Inr (CountStar from (agg_Result (hd Agg)))
      else Inr (SimpleAggregate from Agg))"
| "lowerAggregate Agg (Some GroupBy) from = Inr (HashAggregate from Agg GroupBy [] 0)"

subsection \<open>ORDER BY\<close>

text \<open>The inner loops \<open>for col := range ...\<close> of lowerOrder: the index of the first
  element that matches.\<close>

fun first_index :: "('a \<Rightarrow> bool) \<Rightarrow> 'a list \<Rightarrow> nat option" where
  "first_index P [] = None"
| "first_index P (x # xs) =
     (if P x then Some 0 else (case first_index P xs of None \<Rightarrow> None | Some i \<Rightarrow> Some (Suc i)))"

text \<open>The loop \<open>outer\<close> over in.Columns when the upstream is a hash aggregate: \<open>ob\<close> is
  ha.OrderBy, which grows by one entry for every column resolved; the first column that
  is resolved by neither list stops the loop with an error, and the entries appended
  so far stay.\<close>

fun lowerOrder_hash ::
  "expr_pkg \<Rightarrow> Order list \<Rightarrow> Aggregation \<Rightarrow> Binding list \<Rightarrow> HashOrder list
     \<Rightarrow> error option \<times> HashOrder list" where
  "lowerOrder_hash X [] agg by ob = (None, ob)"
| "lowerOrder_hash X (c # cs) agg by ob =
     (case first_index (\<lambda>a. IsIdentifier X (Column c) (agg_Result a)) agg of
        Some col \<Rightarrow>
          lowerOrder_hash X cs agg by (ob @ [HashOrder col (Desc c) (NullsLast c)])
      | None \<Rightarrow>
         (case first_index (\<lambda>b. IsIdentifier X (Column c) (bind_Result b)) by of
            Some col \<Rightarrow>
              lowerOrder_hash X cs agg by
                (ob @ [HashOrder (length agg + col) (Desc c) (NullsLast c)])
          | None \<Rightarrow> (Some (Errorf ''cannot ORDER BY expression %q'' [Column c]), ob)))"

text \<open>The loop that builds \<open>columns\<close> for an ordinary Order node, skipping constants.\<close>

fun lowerOrder_columns :: "Order list \<Rightarrow> OrderByColumn list \<Rightarrow> OrderByColumn list" where
  "lowerOrder_columns [] columns = columns"
| "lowerOrder_columns (c # cs) columns =
     (case Column c of
        Bool b \<Rightarrow> lowerOrder_columns cs columns
      | Integer i \<Rightarrow> lowerOrder_columns cs columns
      | Rational p q \<Rightarrow> lowerOrder_columns cs columns
      | Float f \<Rightarrow> lowerOrder_columns cs columns
      | String s \<Rightarrow> lowerOrder_columns cs columns
      | _ \<Rightarrow> lowerOrder_columns cs
               (columns @ [OrderByColumn (Column c) (Desc c) (NullsLast c)]))"

text \<open>The two loops that look for duplicates: \<open>lowerOrder_dup_from\<close> is the loop over
  \<open>j\<close> for a fixed \<open>columns[i]\<close>, \<open>lowerOrder_dup\<close> the loop over \<open>i\<close>. The result is
  the node named in the error, when there is one.\<close>

fun lowerOrder_dup_from :: "expr_pkg \<Rightarrow> node \<Rightarrow> OrderByColumn list \<Rightarrow> node option" where
  "lowerOrder_dup_from X n [] = None"
| "lowerOrder_dup_from X n (c # cs) =
     (if Equivalent X n (obc_Node c) then Some (obc_Node c) else lowerOrder_dup_from X n cs)"

fun lowerOrder_dup :: "expr_pkg \<Rightarrow> OrderByColumn list \<Rightarrow> node option" where
  "lowerOrder_dup X [] = None"
| "lowerOrder_dup X (c # cs) =
     (case lowerOrder_dup_from X (obc_Node c) cs of
        Some n \<Rightarrow> Some n
      | None \<Rightarrow> lowerOrder_dup X cs)"

fun lowerOrder :: "expr_pkg \<Rightarrow> Order list \<Rightarrow> 's Op \<Rightarrow> (error + 's Op) \<times> 's Op" where
  "lowerOrder X Columns (HashAggregate f agg by ob l) =
     (case lowerOrder_hash X Columns agg by ob of
        (Some e, ob') \<Rightarrow> (Inl e, HashAggregate f agg by ob' l)
      | (None, ob') \<Rightarrow> (Inr (HashAggregate f agg by ob' l), HashAggregate f agg by ob' l))"
| "lowerOrder X Columns from =
     (let columns = lowerOrder_columns Columns [] in
      if length columns = 0 then (Inr from, from)
      else case lowerOrder_dup X columns of
        Some n \<Rightarrow> (Inl (Errorf ''duplicate order by expression %q'' [n]), from)
      | None \<Rightarrow> (Inr (OrderBy from columns 0 0), from))"

subsection \<open>SELECT INTO\<close>

text \<open>
  An environment may implement the interface UploadEnv (methods Uploader and Key); the
  type assertion \<open>env.(UploadEnv)\<close> fails when it does not: \<open>None\<close>. Uploader returns an
  interface value and Key a pointer, and both may be nil: \<open>None\<close>.
\<close>

record UploadEnv =
  Uploader :: "UploadFS option"
  Key_of :: "Key option"

definition lowerOutputPart :: "string \<Rightarrow> UploadEnv option \<Rightarrow> 's Op \<Rightarrow> error + 's Op" where
  "lowerOutputPart Basename env input =
     (case env of
        Some e \<Rightarrow>
          (case Uploader e of
             Some up \<Rightarrow> Inr (OutputPart input Basename up)
           | None \<Rightarrow> Inl (Errorf ''cannot handle INTO with Env that doesn't support UploadEnv'' []))
      | None \<Rightarrow> Inl (Errorf ''cannot handle INTO with Env that doesn't support UploadEnv'' []))"

definition lowerOutputIndex ::
  "node \<Rightarrow> string \<Rightarrow> UploadEnv option \<Rightarrow> 's Op \<Rightarrow> error + 's Op" where
  "lowerOutputIndex Tbl Basename env input =
     (case env of
        Some e \<Rightarrow>
          (case Uploader e of
             Some up \<Rightarrow> Inr (OutputIndex input Tbl Basename up (Key_of e))
           | None \<Rightarrow> Inl (Errorf ''cannot handle INTO with Env that doesn't support UploadEnv'' []))
      | None \<Rightarrow> Inl (Errorf ''cannot handle INTO with Env that doesn't support UploadEnv'' []))"

section \<open>Inputs and the walker\<close>

text \<open>
  Modelled from the spec: the declarations of TableHandle, tableHandles, Hints and Input
  are missing. A TableHandle is an opaque value that may be absent (nil) or a compound
  handle, \<open>tableHandles\<close>, wrapping a sequence of handles. Hints hold a filter that may be
  absent, the projected fields and the all-fields flag. An Input is the finished pair of
  a table and its handle. The struct \<open>input\<close> is the walker's entry for a table.
\<close>

datatype 'h TableHandle =
    nil_handle
  | Handle 'h
  | tableHandles "'h TableHandle list"

record Hints =
  Filter :: "node option"
  Fields :: "string list"
  AllFields :: bool

record 'h input =
  table :: Table
  hints :: Hints
  handle :: "'h TableHandle"

datatype 'h Input = Input (Input_Table: Table) (Input_Handle: "'h TableHandle")

text \<open>
  The environment is a parameter of the lowering: \<open>stat\<close> is the planner's helper
  \<open>stat(env, tbl, hints)\<close>, which asks the environment for a handle, and \<open>upload\<close> the
  result of the type assertion \<open>env.(UploadEnv)\<close>.
\<close>

record 'h Env =
  stat :: "node \<Rightarrow> Hints \<Rightarrow> error + 'h TableHandle"
  upload :: "UploadEnv option"

text \<open>
  Modelled from the spec: the declaration of Subtables is missing. A Subtables value is
  an ordered sequence that supports a length query (Len) and append (Append). \<open>None\<close> is
  the nil value, the zero value of \<open>var out Subtables\<close>; a method call on it, or with it
  as the appended argument, is a run-time panic.
\<close>

type_synonym 's Subtables = "'s list option"

record ('h, 's) Splitter =
  Split :: "node \<Rightarrow> 'h TableHandle \<Rightarrow> error + 's Subtables"

record ('h, 's) walker =
  env :: "'h Env"
  split :: "('h, 's) Splitter option"
  inputs :: "'h input list"

text \<open>The methods of \<open>input\<close> write to their receiver: they return their result and the
  receiver after the call.\<close>

definition input_stat :: "'h Env \<Rightarrow> 'h input \<Rightarrow> (error + 'h TableHandle) \<times> 'h input" where
  "input_stat e i =
     (if handle i \<noteq> nil_handle then (Inr (handle i), i)
      else case stat e (tbl_Expr (table i)) (hints i) of
        Inl err \<Rightarrow> (Inl err, i)
      | Inr th \<Rightarrow> (Inr th, i\<lparr>handle := th\<rparr>))"

definition input_finish :: "'h Env \<Rightarrow> 'h input \<Rightarrow> (error + 'h Input) \<times> 'h input" where
  "input_finish e i =
     (case input_stat e i of
        (Inl err, i') \<Rightarrow> (Inl err, i')
      | (Inr th, i') \<Rightarrow> (Inr (Input (table i') th), i'))"

text \<open>slices.Sort followed by slices.Compact: sort, then drop adjacent duplicates.\<close>

definition merge :: "expr_pkg \<Rightarrow> 'h input \<Rightarrow> 'h input \<Rightarrow> bool \<times> 'h input" where
  "merge X i inp =
     (if \<not> Equals X (table i) (table inp) then (False, i)
      else if \<not> Equal X (Filter (hints i)) (Filter (hints inp)) then (False, i)
      else
        (let i1 = i\<lparr>handle := nil_handle\<rparr> in
         if AllFields (hints i1) then (True, i1)
         else if AllFields (hints inp)
         then (True, i1\<lparr>hints := (hints i1)\<lparr>Fields := [], AllFields := True\<rparr>\<rparr>)
         else (True, i1\<lparr>hints := (hints i1)
                 \<lparr>Fields := remdups_adj (sort (Fields (hints i1) @ Fields (hints inp)))\<rparr>\<rparr>)))"

section \<open>The logical trace (package pir)\<close>

text \<open>
  Modelled from the spec: the declarations of package pir are missing. The steps and
  their attributes are those of the spec's data model, under the names the lowering
  uses for them. pir.IterTable comes with its methods Fields and Wildcard.
\<close>

record IterTable =
  it_Table :: Table
  it_Filter :: "node option"
  it_Fields :: "string list"
  it_Wildcard :: bool

text \<open>
  A step holds its parent step (\<open>pir.Input\<close>) as first argument, then its fields:
  IterValue: Wildcard, Value, InnerBind, OuterBind, Filter. Filter: Where.
  Distinct: Columns. Bind: Bindings. Aggregate: Agg, GroupBy. Limit: Count, Offset.
  Order: Columns. OutputIndex: Table, Basename. OutputPart: Basename.
  UnionMap: Inner, Child. \<open>pir_Other\<close> is any other kind of step.
  A trace has a final step, its replacements (the correlated sub-traces) and its final
  bindings.
\<close>

datatype Step =
    pir_IterTable IterTable
  | pir_IterValue Step bool node "Binding list" "Binding list" "node option"
  | pir_Filter Step node
  | pir_Distinct Step "node list"
  | pir_Bind Step "Binding list"
  | pir_Aggregate Step Aggregation "Binding list option"
  | pir_Limit Step int64 int64
  | pir_Order Step "Order list"
  | pir_OutputIndex Step node string
  | pir_OutputPart Step string
  | pir_UnionMap IterTable Trace
  | pir_NoOutput
  | pir_DummyOutput
  | pir_Other Step
and Trace = Trace (Final: Step) (Replacements: "Trace list") (FinalBindings: "Binding list")

section \<open>Interning of table references\<close>

text \<open>The loop of \<open>put\<close> over w.inputs: the index of the first input that merges with
  \<open>inp\<close>, and the inputs after that merge.\<close>

fun put_scan :: "expr_pkg \<Rightarrow> 'h input list \<Rightarrow> 'h input \<Rightarrow> (nat \<times> 'h input list) option" where
  "put_scan X [] inp = None"
| "put_scan X (i # rest) inp =
     (case merge X i inp of
        (True, i') \<Rightarrow> Some (0, i' # rest)
      | (False, i') \<Rightarrow>
          (case put_scan X rest inp of
             None \<Rightarrow> None
           | Some (k, rest') \<Rightarrow> Some (Suc k, i' # rest')))"

definition put :: "expr_pkg \<Rightarrow> ('h, 's) walker \<Rightarrow> IterTable \<Rightarrow> nat \<times> ('h, 's) walker" where
  "put X w it =
     (let inp = \<lparr>table = it_Table it,
                 hints = \<lparr>Filter = it_Filter it, Fields = it_Fields it,
                          AllFields = it_Wildcard it\<rparr>,
                 handle = nil_handle\<rparr>
      in case put_scan X (inputs w) inp of
           Some (i, ins) \<Rightarrow> (i, w\<lparr>inputs := ins\<rparr>)
         | None \<Rightarrow> (length (inputs w), w\<lparr>inputs := inputs w @ [inp]\<rparr>))"

fun finish_loop :: "'h Env \<Rightarrow> 'h input list \<Rightarrow> (error + 'h Input list) \<times> 'h input list" where
  "finish_loop e [] = (Inr [], [])"
| "finish_loop e (i # rest) =
     (case input_finish e i of
        (Inl err, i') \<Rightarrow> (Inl err, i' # rest)
      | (Inr x, i') \<Rightarrow>
          (case finish_loop e rest of
             (Inl err, rest') \<Rightarrow> (Inl err, i' # rest')
           | (Inr xs, rest') \<Rightarrow> (Inr (x # xs), i' # rest')))"

definition finish :: "('h, 's) walker \<Rightarrow> (error + 'h Input list) \<times> ('h, 's) walker" where
  "finish w = (case finish_loop (env w) (inputs w) of (r, ins) \<Rightarrow> (r, w\<lparr>inputs := ins\<rparr>))"

section \<open>Splitting\<close>

text \<open>
  doSplit returns its result and the list of the calls \<open>s.Split(tbl, th)\<close> it made, in
  order. \<open>doSplit_loop\<close> is the loop over the members of a compound handle, \<open>out\<close> its
  accumulator. The splitter of a walker may be nil (\<open>None\<close>): calling it panics.
\<close>

fun doSplit ::
  "('h, 's) Splitter option \<Rightarrow> node \<Rightarrow> 'h TableHandle
     \<Rightarrow> (error + 's Subtables) \<times> (node \<times> 'h TableHandle) list"
and doSplit_loop ::
  "('h, 's) Splitter option \<Rightarrow> node \<Rightarrow> 'h TableHandle list \<Rightarrow> 's Subtables
     \<Rightarrow> (error + 's Subtables) \<times> (node \<times> 'h TableHandle) list" where
  "doSplit s tbl (tableHandles hs) = doSplit_loop s tbl hs None"
| "doSplit s tbl th =
     (case s of
        None \<Rightarrow> (Inl (Panic ''nil Splitter''), [])
      | Some sp \<Rightarrow> (Split sp tbl th, [(tbl, th)]))"
| "doSplit_loop s tbl [] out = (Inr out, [])"
| "doSplit_loop s tbl (h # hs) out =
     (case doSplit s tbl h of
        (Inl err, calls) \<Rightarrow> (Inl err, calls)
      | (Inr sub, calls) \<Rightarrow>
          (case out of
             None \<Rightarrow>
               (case doSplit_loop s tbl hs sub of (r, calls') \<Rightarrow> (r, calls @ calls'))
           | Some o1 \<Rightarrow>
               (case sub of
                  None \<Rightarrow> (Inl (Panic ''Append of nil Subtables''), calls)
                | Some o2 \<Rightarrow>
                    (case doSplit_loop s tbl hs (Some (o1 @ o2)) of
                       (r, calls') \<Rightarrow> (r, calls @ calls')))))"

section \<open>Walking a trace\<close>

text \<open>
  The methods of the walker return their result and the walker after the call.
  \<open>then_lower\<close> is the second half of walkBuild: when the parent step was lowered, the
  step's own lowering is applied to the operator obtained.
  \<open>lowerUnionMap_split\<close> is lowerUnionMap after the child was lowered: it stats the
  input (an index out of range panics), splits and builds the operator.
\<close>

definition then_lower ::
  "(error + 's Op) \<times> ('h, 's) walker \<Rightarrow> ('s Op \<Rightarrow> error + 's Op)
     \<Rightarrow> (error + 's Op) \<times> ('h, 's) walker" where
  "then_lower r lower =
     (case r of
        (Inl err, w') \<Rightarrow> (Inl err, w')
      | (Inr input, w') \<Rightarrow> (lower input, w'))"

definition lowerUnionMap_split ::
  "('h, 's) walker \<Rightarrow> IterTable \<Rightarrow> nat \<Rightarrow> 's Op \<Rightarrow> (error + 's Op) \<times> ('h, 's) walker" where
  "lowerUnionMap_split w inner input sub =
     (if \<not> input < length (inputs w) then (Inl (Panic ''index out of range''), w)
      else case input_stat (env w) (inputs w ! input) of
        (Inl err, i') \<Rightarrow> (Inl err, w\<lparr>inputs := (inputs w)[input := i']\<rparr>)
      | (Inr h, i') \<Rightarrow>
          (let w' = w\<lparr>inputs := (inputs w)[input := i']\<rparr> in
           case fst (doSplit (split w') (tbl_Expr (it_Table inner)) h) of
             Inl err \<Rightarrow> (Inl err, w')
           | Inr None \<Rightarrow> (Inl (Panic ''Len of nil Subtables''), w')
           | Inr (Some tbls) \<Rightarrow>
               (if length tbls = 0 then (Inr NoOutput, w')
                else (Inr (UnionMap sub input tbls), w'))))"

fun walkBuild :: "expr_pkg \<Rightarrow> ('h, 's) walker \<Rightarrow> Step \<Rightarrow> (error + 's Op) \<times> ('h, 's) walker"
and lowerUnionMap ::
  "expr_pkg \<Rightarrow> ('h, 's) walker \<Rightarrow> IterTable \<Rightarrow> Trace \<Rightarrow> (error + 's Op) \<times> ('h, 's) walker"
where
  "walkBuild X w (pir_IterTable it) =
     (case put X w it of
        (i, w') \<Rightarrow>
          (case it_Filter it of
             None \<Rightarrow> (Inr (Leaf i), w')
           | Some f \<Rightarrow> (Inr (FilterOp (Leaf i) f), w')))"
| "walkBuild X w pir_NoOutput = (Inr NoOutput, w)"
| "walkBuild X w pir_DummyOutput = (Inr DummyOutput, w)"
| "walkBuild X w (pir_UnionMap inner child) = lowerUnionMap X w inner child"
| "walkBuild X w (pir_IterValue parent wildcard val innerBind outerBind filt) =
     then_lower (walkBuild X w parent) (lowerIterValue wildcard val innerBind outerBind filt)"
| "walkBuild X w (pir_Filter parent Where) =
     then_lower (walkBuild X w parent) (lowerFilter Where)"
| "walkBuild X w (pir_Distinct parent Columns) =
     then_lower (walkBuild X w parent) (lowerDistinct Columns)"
| "walkBuild X w (pir_Bind parent Bindings) =
     then_lower (walkBuild X w parent) (lowerBind Bindings)"
| "walkBuild X w (pir_Aggregate parent Agg GroupBy) =
     then_lower (walkBuild X w parent) (lowerAggregate Agg GroupBy)"
| "walkBuild X w (pir_Limit parent Count Offset) =
     then_lower (walkBuild X w parent) (\<lambda>input. fst (lowerLimit Count Offset input))"
| "walkBuild X w (pir_Order parent Columns) =
     then_lower (walkBuild X w parent) (\<lambda>input. fst (lowerOrder X Columns input))"
| "walkBuild X w (pir_OutputIndex parent Tbl Basename) =
     then_lower (walkBuild X w parent) (lowerOutputIndex Tbl Basename (upload (env w)))"
| "walkBuild X w (pir_OutputPart parent Basename) =
     then_lower (walkBuild X w parent) (lowerOutputPart Basename (upload (env w)))"
| "walkBuild X w (pir_Other parent) =
     then_lower (walkBuild X w parent) (\<lambda>input. Inl (Errorf ''don't know how to lower %T'' []))"
| "lowerUnionMap X w inner (Trace final replacements bindings) =
     (case put X w inner of
        (input, w1) \<Rightarrow>
          (case walkBuild X w1 final of
             (Inl err, w2) \<Rightarrow> (Inl err, w2)
           | (Inr sub, w2) \<Rightarrow> lowerUnionMap_split w2 inner input sub))"

section \<open>Building the tree\<close>

type_synonym TypeSet = "16 word"

datatype Result = Result (Name: string) (Type: TypeSet)

text \<open>\<open>typeOf\<close> is the method TypeOf of a trace, a parameter of the model.\<close>

definition results :: "(Trace \<Rightarrow> node \<Rightarrow> TypeSet) \<Rightarrow> Trace \<Rightarrow> Result list" where
  "results typeOf b =
     map (\<lambda>f. Result (bind_Result f) (typeOf b (bind_Expr f))) (FinalBindings b)"

datatype ('h, 's) Node =
  Node (Op: "'s Op") (OutputType: "Result list") (Children: "('h, 's) Node list")
       (Inputs: "'h Input list")

datatype ('h, 's) Tree = Tree (Root: "('h, 's) Node") (Tree_Inputs: "'h Input list")

text \<open>
  toNode returns the node it fills in and its receiver after the call.
  \<open>toNode_children\<close> is the loop over in.Replacements: every iteration calls toNode on the
  one walker \<open>sub\<close>, which toNode creates empty before the loop and finishes after it.
\<close>

fun toNode ::
  "expr_pkg \<Rightarrow> (Trace \<Rightarrow> node \<Rightarrow> TypeSet) \<Rightarrow> ('h, 's) walker \<Rightarrow> Trace
     \<Rightarrow> (error + ('h, 's) Node) \<times> ('h, 's) walker"
and toNode_children ::
  "expr_pkg \<Rightarrow> (Trace \<Rightarrow> node \<Rightarrow> TypeSet) \<Rightarrow> ('h, 's) walker \<Rightarrow> Trace list
     \<Rightarrow> (error + ('h, 's) Node list) \<times> ('h, 's) walker"
where
  "toNode X typeOf w (Trace final replacements bindings) =
     (case walkBuild X w final of
        (Inl err, w') \<Rightarrow> (Inl err, w')
      | (Inr op, w') \<Rightarrow>
          (case toNode_children X typeOf \<lparr>env = env w', split = split w', inputs = []\<rparr>
                  replacements of
             (Inl err, sub) \<Rightarrow> (Inl err, w')
           | (Inr children, sub) \<Rightarrow>
               (case finish sub of
                  (Inl err, sub') \<Rightarrow> (Inl err, w')
                | (Inr ins, sub') \<Rightarrow>
                    (Inr (Node op (results typeOf (Trace final replacements bindings))
                            children ins), w'))))"
| "toNode_children X typeOf sub [] = (Inr [], sub)"
| "toNode_children X typeOf sub (r # rs) =
     (case toNode X typeOf sub r of
        (Inl err, sub') \<Rightarrow> (Inl err, sub')
      | (Inr n, sub') \<Rightarrow>
          (case toNode_children X typeOf sub' rs of
             (Inl err, sub'') \<Rightarrow> (Inl err, sub'')
           | (Inr ns, sub'') \<Rightarrow> (Inr (n # ns), sub'')))"

definition toTree ::
  "expr_pkg \<Rightarrow> (Trace \<Rightarrow> node \<Rightarrow> TypeSet) \<Rightarrow> Trace \<Rightarrow> 'h Env \<Rightarrow> ('h, 's) Splitter option
     \<Rightarrow> error + ('h, 's) Tree" where
  "toTree X typeOf tr e s =
     (case toNode X typeOf \<lparr>env = e, split = s, inputs = []\<rparr> tr of
        (Inl err, w) \<Rightarrow> Inl err
      | (Inr root, w) \<Rightarrow>
          (case finish w of
             (Inl err, w') \<Rightarrow> Inl err
           | (Inr ins, w') \<Rightarrow> Inr (Tree root ins)))"

section \<open>Reference definitions for the properties\<close>

text \<open>
  \<open>is_ErrNotSupported\<close> is \<open>errors.Is(err, ErrNotSupported)\<close>. \<open>structural\<close> is an
  instance of the functions of package expr, used for the concrete examples: every
  comparison is structural equality and an identifier is a path of one name.
\<close>

fun is_ErrNotSupported :: "error \<Rightarrow> bool" where
  "is_ErrNotSupported (ErrNotSupported msg) = True"
| "is_ErrNotSupported e = False"

definition structural :: expr_pkg where
  "structural = \<lparr>Equals = (=), Equal = (=), Equivalent = (=),
                  IsIdentifier = (\<lambda>e s. e = Path s)\<rparr>"

text \<open>
  The entry that an order column \<open>c\<close> gets over a hash aggregate, stated with list
  functions: the position of the first aggregate whose result name \<open>c\<close> is, otherwise the
  number of aggregates plus the position of the first group-by binding whose result
  name \<open>c\<close> is, otherwise none.
\<close>

definition order_entry :: "expr_pkg \<Rightarrow> Aggregation \<Rightarrow> Binding list \<Rightarrow> Order \<Rightarrow> HashOrder option" where
  "order_entry X agg by c =
     (if list_ex (\<lambda>a. IsIdentifier X (Column c) (agg_Result a)) agg
      then Some (HashOrder
             (length (takeWhile (\<lambda>a. \<not> IsIdentifier X (Column c) (agg_Result a)) agg))
             (Desc c) (NullsLast c))
      else if list_ex (\<lambda>b. IsIdentifier X (Column c) (bind_Result b)) by
      then Some (HashOrder
             (length agg + length (takeWhile (\<lambda>b. \<not> IsIdentifier X (Column c) (bind_Result b)) by))
             (Desc c) (NullsLast c))
      else None)"

text \<open>The literals that do not sort, and the columns of an Order step that are left
  when the literal ones are dropped.\<close>

fun literal :: "node \<Rightarrow> bool" where
  "literal (Bool b) = True"
| "literal (Integer i) = True"
| "literal (Rational p q) = True"
| "literal (Float f) = True"
| "literal (String s) = True"
| "literal n = False"

definition surviving_columns :: "Order list \<Rightarrow> OrderByColumn list" where
  "surviving_columns cols =
     map (\<lambda>c. OrderByColumn (Column c) (Desc c) (NullsLast c))
       (filter (\<lambda>c. \<not> literal (Column c)) cols)"

text \<open>
  The handles that are not compound, reached from a handle through its compound
  members, from left to right; whether a handle is compound; and whether every compound
  handle in a handle has a member.
\<close>

fun leaves :: "'h TableHandle \<Rightarrow> 'h TableHandle list" where
  "leaves (tableHandles hs) = concat (map leaves hs)"
| "leaves th = [th]"

fun compound :: "'h TableHandle \<Rightarrow> bool" where
  "compound (tableHandles hs) = True"
| "compound th = False"

fun no_empty_compound :: "'h TableHandle \<Rightarrow> bool" where
  "no_empty_compound (tableHandles hs) = (hs \<noteq> [] \<and> list_all no_empty_compound hs)"
| "no_empty_compound th = True"

text \<open>
  Splitting a sequence of handles one after the other with the same table expression:
  the result is the concatenation of the results, and the calls made are listed in
  order; the first error ends it. \<open>some_result\<close> turns the sequence obtained into a
  Subtables value.
\<close>

fun split_each ::
  "('h, 's) Splitter \<Rightarrow> node \<Rightarrow> 'h TableHandle list
     \<Rightarrow> (error + 's list) \<times> (node \<times> 'h TableHandle) list" where
  "split_each sp tbl [] = (Inr [], [])"
| "split_each sp tbl (h # hs) =
     (case Split sp tbl h of
        Inl err \<Rightarrow> (Inl err, [(tbl, h)])
      | Inr r \<Rightarrow>
          (case split_each sp tbl hs of
             (Inl err, calls) \<Rightarrow> (Inl err, (tbl, h) # calls)
           | (Inr rs, calls) \<Rightarrow>
               (Inr ((case r of None \<Rightarrow> [] | Some x \<Rightarrow> x) @ rs), (tbl, h) # calls)))"

definition some_result ::
  "(error + 's list) \<times> 'c \<Rightarrow> (error + 's Subtables) \<times> 'c" where
  "some_result r = (case r of (Inl err, calls) \<Rightarrow> (Inl err, calls)
                            | (Inr rs, calls) \<Rightarrow> (Inr (Some rs), calls))"

text \<open>
  An input is interned under its table and its filter: \<open>accepts\<close> is the test merge
  makes, with the receiver first. A list of inputs is interned when no entry accepts a
  later one. \<open>new_input\<close> is the input that put builds from an iterator.
\<close>

definition key_of :: "'h input \<Rightarrow> Table \<times> node option" where
  "key_of i = (table i, Filter (hints i))"

definition accepts :: "expr_pkg \<Rightarrow> 'h input \<Rightarrow> 'h input \<Rightarrow> bool" where
  "accepts X i inp \<longleftrightarrow>
     Equals X (table i) (table inp) \<and> Equal X (Filter (hints i)) (Filter (hints inp))"

fun interned :: "expr_pkg \<Rightarrow> 'h input list \<Rightarrow> bool" where
  "interned X [] = True"
| "interned X (i # rest) = (list_all (\<lambda>j. \<not> accepts X i j) rest \<and> interned X rest)"

definition new_input :: "IterTable \<Rightarrow> 'h input" where
  "new_input it =
     \<lparr>table = it_Table it,
      hints = \<lparr>Filter = it_Filter it, Fields = it_Fields it, AllFields = it_Wildcard it\<rparr>,
      handle = nil_handle\<rparr>"

text \<open>
  The input indices an operator refers to (Leaf.Input and UnionMap.Orig), and what a
  call of walkBuild or lowerUnionMap on the walker \<open>w\<close> keeps: environment and splitter
  stay, the input list does not get shorter and stays interned, and the operator
  returned refers to inputs of the walker only.
\<close>

fun input_refs :: "'s Op \<Rightarrow> nat set" where
  "input_refs (Leaf i) = {i}"
| "input_refs (FilterOp f e) = input_refs f"
| "input_refs (Project f bs) = input_refs f"
| "input_refs (Distinct f flds l) = input_refs f"
| "input_refs (SimpleAggregate f agg) = input_refs f"
| "input_refs (CountStar f as) = input_refs f"
| "input_refs (HashAggregate f agg by ob l) = input_refs f"
| "input_refs (OrderBy f cols l off) = input_refs f"
| "input_refs (Limit f n) = input_refs f"
| "input_refs (Unnest f p ib ob m) = input_refs f"
| "input_refs (UnionMap f orig sub) = insert orig (input_refs f)"
| "input_refs (OutputPart f b st) = input_refs f"
| "input_refs (OutputIndex f t b st k) = input_refs f"
| "input_refs NoOutput = {}"
| "input_refs DummyOutput = {}"

definition walk_inv ::
  "expr_pkg \<Rightarrow> ('h, 's) walker \<Rightarrow> (error + 's Op) \<times> ('h, 's) walker \<Rightarrow> bool" where
  "walk_inv X w r \<longleftrightarrow>
     env (snd r) = env w \<and> split (snd r) = split w \<and>
     length (inputs w) \<le> length (inputs (snd r)) \<and>
     (interned X (inputs w) \<longrightarrow> interned X (inputs (snd r))) \<and>
     (case fst r of Inl err \<Rightarrow> True
      | Inr op \<Rightarrow> \<forall>i\<in>input_refs op. i < length (inputs (snd r)))"

text \<open>
  Example inputs: a table and an iterator over it, a splitter that makes one subtable of
  every opaque handle and none of any other handle, a splitter that never makes a
  subtable, and an environment whose stat returns a compound handle of two handles.
\<close>

definition table_t :: Table where
  "table_t = Table (Path ''t'') ''t''"

definition iter_t :: IterTable where
  "iter_t = \<lparr>it_Table = table_t, it_Filter = None, it_Fields = [''a''], it_Wildcard = False\<rparr>"

definition unit_splitter :: "(nat, nat) Splitter" where
  "unit_splitter =
     \<lparr>Split = (\<lambda>tbl th. case th of Handle n \<Rightarrow> Inr (Some [n]) | _ \<Rightarrow> Inr (Some []))\<rparr>"

definition empty_splitter :: "(nat, nat) Splitter" where
  "empty_splitter = \<lparr>Split = (\<lambda>tbl th. Inr (Some []))\<rparr>"

definition env_pair :: "nat Env" where
  "env_pair = \<lparr>stat = (\<lambda>tbl h. Inr (tableHandles [Handle 1, Handle 2])), upload = None\<rparr>"

definition walker_pair :: "(nat, nat) Splitter \<Rightarrow> (nat, nat) walker" where
  "walker_pair sp = \<lparr>env = env_pair, split = Some sp, inputs = []\<rparr>"

text \<open>
  What the tree builder establishes for the node built from a trace, in terms of the
  walker in which the sub-traces of that trace are lowered: that walker starts empty
  with the environment \<open>e\<close> and the splitter \<open>s\<close>, it is interned after the loop over the
  sub-traces, the inputs of the node are what finish makes of it, and the same holds of
  every child with its sub-trace.
\<close>

fun node_interned ::
  "expr_pkg \<Rightarrow> (Trace \<Rightarrow> node \<Rightarrow> TypeSet) \<Rightarrow> 'h Env \<Rightarrow> ('h, 's) Splitter option
     \<Rightarrow> Trace \<Rightarrow> ('h, 's) Node \<Rightarrow> bool"
and nodes_interned ::
  "expr_pkg \<Rightarrow> (Trace \<Rightarrow> node \<Rightarrow> TypeSet) \<Rightarrow> 'h Env \<Rightarrow> ('h, 's) Splitter option
     \<Rightarrow> Trace list \<Rightarrow> ('h, 's) Node list \<Rightarrow> bool"
where
  "node_interned X typeOf e s (Trace final replacements bindings) n =
     (interned X (inputs (snd (toNode_children X typeOf
          \<lparr>env = e, split = s, inputs = []\<rparr> replacements))) \<and>
      fst (finish (snd (toNode_children X typeOf
          \<lparr>env = e, split = s, inputs = []\<rparr> replacements))) = Inr (Inputs n) \<and>
      nodes_interned X typeOf e s replacements (Children n))"
| "nodes_interned X typeOf e s [] ns = (ns = [])"
| "nodes_interned X typeOf e s (r # rs) ns =
     (case ns of
        [] \<Rightarrow> False
      | n # ns' \<Rightarrow> node_interned X typeOf e s r n \<and> nodes_interned X typeOf e s rs ns')"

text \<open>
  A node is scoped when the operator of each of its children refers to entries of the
  node's own input list only, and every child is scoped.
\<close>

fun node_scoped :: "('h, 's) Node \<Rightarrow> bool" where
  "node_scoped (Node op res children ins) =
     (list_all (\<lambda>c. \<forall>i\<in>input_refs (Op c). i < length ins) children \<and>
      list_all node_scoped children)"

text \<open>
  An environment whose handle for a table is the hints it was asked with, and a trace
  with two sub-traces that iterate over the same table with different fields.
\<close>

definition env_hints :: "Hints Env" where
  "env_hints = \<lparr>stat = (\<lambda>tbl h. Inr (Handle h)), upload = None\<rparr>"

definition iter_b :: IterTable where
  "iter_b = \<lparr>it_Table = table_t, it_Filter = None, it_Fields = [''b''], it_Wildcard = False\<rparr>"

definition trace_siblings :: Trace where
  "trace_siblings =
     Trace (pir_IterTable iter_t)
       [Trace (pir_IterTable iter_t) [] [], Trace (pir_IterTable iter_b) [] []] []"

definition iter_u :: IterTable where
  "iter_u = \<lparr>it_Table = Table (Path ''u'') ''u'', it_Filter = None, it_Fields = [],
             it_Wildcard = True\<rparr>"

definition tree_siblings :: "(Hints, nat) Tree" where
  "tree_siblings =
     Tree (Node (Leaf 0) [] [Node (Leaf 0) [] [] [], Node (Leaf 0) [] [] []]
             [Input table_t
                (Handle \<lparr>Filter = None, Fields = [''a'', ''b''], AllFields = False\<rparr>)])
          [Input table_t (Handle \<lparr>Filter = None, Fields = [''a''], AllFields = False\<rparr>)]"

definition walker_hints :: "(Hints, nat) walker" where
  "walker_hints = \<lparr>env = env_hints, split = None, inputs = []\<rparr>"

section \<open>Properties of the lowering of LIMIT\<close>

text \<open>
  C5. A Limit step whose count is 0 lowers to NoOutput and returns no error, whatever
  the upstream operator and the offset are; the upstream operator is left as it was.
\<close>

theorem lowerLimit_count_zero:
  "lowerLimit 0 Offset from = (Inr NoOutput, from)"
  by simp

text \<open>
  C4. A Limit step with count > 0 over an already lowered upstream operator:
  a hash aggregate gets its limit set to the count, a non-zero offset is rejected and
  otherwise the hash aggregate itself is returned; an OrderBy gets limit and offset set
  and is returned itself, with no Limit operator around it; on a Distinct a non-zero
  offset is rejected and otherwise its limit is set to the count; over any other
  operator a non-zero offset is rejected with ErrNotSupported and otherwise a new Limit
  operator around the upstream, holding the count, is returned.
\<close>

theorem lowerLimit_fusion:
  assumes "0 <s Count"
  shows
    "(\<forall>f agg by ob l. from = HashAggregate f agg by ob l \<longrightarrow>
        snd (lowerLimit Count Offset from) = HashAggregate f agg by ob Count \<and>
        fst (lowerLimit Count Offset from) =
          (if Offset \<noteq> 0
           then Inl (ErrNotSupported ''non-zero OFFSET of hash aggregate result'')
           else Inr (HashAggregate f agg by ob Count))) \<and>
     (\<forall>f cols l off. from = OrderBy f cols l off \<longrightarrow>
        lowerLimit Count Offset from =
          (Inr (OrderBy f cols Count Offset), OrderBy f cols Count Offset)) \<and>
     (\<forall>f flds l. from = Distinct f flds l \<longrightarrow>
        lowerLimit Count Offset from =
          (if Offset \<noteq> 0
           then (Inl (ErrNotSupported ''non-zero OFFSET of distinct result''), from)
           else (Inr (Distinct f flds Count), Distinct f flds Count))) \<and>
     ((\<forall>f agg by ob l. from \<noteq> HashAggregate f agg by ob l) \<and>
      (\<forall>f cols l off. from \<noteq> OrderBy f cols l off) \<and>
      (\<forall>f flds l. from \<noteq> Distinct f flds l) \<longrightarrow>
        lowerLimit Count Offset from =
          (if Offset \<noteq> 0
           then (Inl (ErrNotSupported ''OFFSET without GROUP BY/ORDER BY not implemented''),
                 from)
           else (Inr (Limit from Count), from)))"
proof -
  from assms have nz: "Count \<noteq> 0" by auto
  show ?thesis
    using nz by (cases "from") (simp_all add: reject_def Let_def)
qed

theorem lowerLimit_fusion_witness:
  "0 <s (10::int64) \<and>
   lowerLimit 10 3 (HashAggregate (Leaf 0) [] [] [] 0 :: nat Op) =
     (Inl (ErrNotSupported ''non-zero OFFSET of hash aggregate result''),
      HashAggregate (Leaf 0) [] [] [] 10) \<and>
   lowerLimit 10 3 (OrderBy (Leaf 0) [] 0 0 :: nat Op) =
     (Inr (OrderBy (Leaf 0) [] 10 3), OrderBy (Leaf 0) [] 10 3) \<and>
   lowerLimit 10 0 (Distinct (Leaf 0) [] 0 :: nat Op) =
     (Inr (Distinct (Leaf 0) [] 10), Distinct (Leaf 0) [] 10) \<and>
   lowerLimit 10 0 (Leaf 0 :: nat Op) = (Inr (Limit (Leaf 0) 10), Leaf 0)"
proof -
  have pos: "0 <s (10::int64)"
    by (simp add: word_sless_alt)
  note inst = lowerLimit_fusion [OF pos]
  show ?thesis
    using pos
      inst [of "HashAggregate (Leaf 0) [] [] [] 0 :: nat Op" 3]
      inst [of "OrderBy (Leaf 0) [] 0 0 :: nat Op" 3]
      inst [of "Distinct (Leaf 0) [] 0 :: nat Op" 0]
      inst [of "Leaf 0 :: nat Op" 0]
    by simp
qed

text \<open>
  C10. A Limit step with count > 0 and a non-zero offset over a hash aggregate returns
  the rejection after it has written the count to the limit field of the hash aggregate:
  the upstream object is changed although the call fails. Over a Distinct the same
  rejection leaves the upstream object as it was.
\<close>

theorem lowerLimit_reject_after_write:
  assumes "0 <s Count" and "Offset \<noteq> 0"
  shows
    "lowerLimit Count Offset (HashAggregate f agg by ob l) =
       (Inl (ErrNotSupported ''non-zero OFFSET of hash aggregate result''),
        HashAggregate f agg by ob Count) \<and>
     lowerLimit Count Offset (Distinct g flds l') =
       (Inl (ErrNotSupported ''non-zero OFFSET of distinct result''), Distinct g flds l')"
proof -
  from assms(1) have "Count \<noteq> 0" by auto
  with assms(2) show ?thesis
    by (simp add: reject_def)
qed

theorem lowerLimit_reject_after_write_witness:
  "0 <s (10::int64) \<and> (3::int64) \<noteq> 0 \<and>
   snd (lowerLimit 10 3 (HashAggregate (Leaf 0) [] [] [] 0 :: nat Op)) =
     HashAggregate (Leaf 0) [] [] [] 10 \<and>
   HashAggregate (Leaf 0) [] [] [] 10 \<noteq> (HashAggregate (Leaf 0) [] [] [] 0 :: nat Op) \<and>
   snd (lowerLimit 10 3 (Distinct (Leaf 0) [] 0 :: nat Op)) = Distinct (Leaf 0) [] 0"
proof -
  have pos: "0 <s (10::int64)"
    by (simp add: word_sless_alt)
  have off: "(3::int64) \<noteq> 0"
    by simp
  show ?thesis
    using pos off
      lowerLimit_reject_after_write [OF pos off, of "Leaf 0 :: nat Op" "[]" "[]" "[]" 0
        "Leaf 0" "[]" 0]
    by simp
qed

section \<open>Properties of the lowering of ORDER BY\<close>

lemma first_index_takeWhile:
  "first_index P xs =
     (if list_ex P xs then Some (length (takeWhile (\<lambda>x. \<not> P x) xs)) else None)"
  by (induction xs) auto

lemma lowerOrder_hash_spec:
  "lowerOrder_hash X cs agg by ob =
     (case find (\<lambda>c. order_entry X agg by c = None) cs of
        None \<Rightarrow> None
      | Some c \<Rightarrow> Some (Errorf ''cannot ORDER BY expression %q'' [Column c]),
      ob @ map (the \<circ> order_entry X agg by)
             (takeWhile (\<lambda>c. order_entry X agg by c \<noteq> None) cs))"
proof (induction cs arbitrary: ob)
  case Nil
  show ?case by simp
next
  case (Cons c cs)
  show ?case
    by (simp add: Cons.IH first_index_takeWhile order_entry_def)
qed

lemma lowerOrder_columns_spec:
  "lowerOrder_columns cs acc = acc @ surviving_columns cs"
  by (induction cs arbitrary: acc) (auto simp: surviving_columns_def split: node.splits)

lemma lowerOrder_dup_from_None:
  "lowerOrder_dup_from X n cs = None \<longleftrightarrow> (\<forall>j<length cs. \<not> Equivalent X n (obc_Node (cs ! j)))"
  by (induction cs) (auto simp: less_Suc_eq_0_disj)

lemma lowerOrder_dup_from_Some:
  "lowerOrder_dup_from X n cs = Some m \<Longrightarrow>
     \<exists>j<length cs. Equivalent X n (obc_Node (cs ! j)) \<and> m = obc_Node (cs ! j)"
  by (induction cs) (auto split: if_splits)

lemma lowerOrder_dup_None:
  "lowerOrder_dup X cs = None \<longleftrightarrow>
     (\<forall>i j. i < j \<and> j < length cs \<longrightarrow> \<not> Equivalent X (obc_Node (cs ! i)) (obc_Node (cs ! j)))"
proof (induction cs)
  case Nil
  show ?case by simp
next
  case (Cons c cs)
  have "(\<forall>i j. i < j \<and> j < length (c # cs) \<longrightarrow>
           \<not> Equivalent X (obc_Node ((c # cs) ! i)) (obc_Node ((c # cs) ! j))) \<longleftrightarrow>
        (\<forall>j<length cs. \<not> Equivalent X (obc_Node c) (obc_Node (cs ! j))) \<and>
        (\<forall>i j. i < j \<and> j < length cs \<longrightarrow> \<not> Equivalent X (obc_Node (cs ! i)) (obc_Node (cs ! j)))"
    (is "?L \<longleftrightarrow> ?A \<and> ?B")
  proof
    assume L: ?L
    have ?A
    proof (intro allI impI)
      fix j assume "j < length cs"
      with L [rule_format, of 0 "Suc j"] show "\<not> Equivalent X (obc_Node c) (obc_Node (cs ! j))"
        by simp
    qed
    moreover have ?B
    proof (intro allI impI)
      fix i j assume "i < j \<and> j < length cs"
      with L [rule_format, of "Suc i" "Suc j"]
      show "\<not> Equivalent X (obc_Node (cs ! i)) (obc_Node (cs ! j))"
        by simp
    qed
    ultimately show "?A \<and> ?B" ..
  next
    assume AB: "?A \<and> ?B"
    show ?L
    proof (intro allI impI)
      fix i j assume ij: "i < j \<and> j < length (c # cs)"
      then obtain j' where j': "j = Suc j'" "j' < length cs"
        by (cases j) auto
      show "\<not> Equivalent X (obc_Node ((c # cs) ! i)) (obc_Node ((c # cs) ! j))"
      proof (cases i)
        case 0
        with AB j' show ?thesis by simp
      next
        case (Suc i')
        with AB j' ij show ?thesis by simp
      qed
    qed
  qed
  note eq = this
  have step: "lowerOrder_dup X (c # cs) = None \<longleftrightarrow>
      lowerOrder_dup_from X (obc_Node c) cs = None \<and> lowerOrder_dup X cs = None"
    by (simp split: option.splits)
  show ?case
    by (simp only: step lowerOrder_dup_from_None Cons.IH eq)
qed


lemma lowerOrder_dup_Some:
  "lowerOrder_dup X cs = Some m \<Longrightarrow>
     \<exists>i j. i < j \<and> j < length cs \<and> Equivalent X (obc_Node (cs ! i)) (obc_Node (cs ! j)) \<and>
           m = obc_Node (cs ! j)"
proof (induction cs)
  case Nil
  then show ?case by simp
next
  case (Cons c cs)
  show ?case
  proof (cases "lowerOrder_dup_from X (obc_Node c) cs")
    case None
    with Cons.prems have "lowerOrder_dup X cs = Some m" by simp
    from Cons.IH [OF this] obtain i j where
      "i < j" "j < length cs" "Equivalent X (obc_Node (cs ! i)) (obc_Node (cs ! j))"
      "m = obc_Node (cs ! j)" by blast
    then have "Suc i < Suc j \<and> Suc j < length (c # cs) \<and>
        Equivalent X (obc_Node ((c # cs) ! Suc i)) (obc_Node ((c # cs) ! Suc j)) \<and>
        m = obc_Node ((c # cs) ! Suc j)" by simp
    then show ?thesis by blast
  next
    case (Some n)
    with Cons.prems have "n = m" by simp
    with Some lowerOrder_dup_from_Some [of X "obc_Node c" cs m] obtain j where
      "j < length cs" "Equivalent X (obc_Node c) (obc_Node (cs ! j))" "m = obc_Node (cs ! j)"
      by blast
    then have "0 < Suc j \<and> Suc j < length (c # cs) \<and>
        Equivalent X (obc_Node ((c # cs) ! 0)) (obc_Node ((c # cs) ! Suc j)) \<and>
        m = obc_Node ((c # cs) ! Suc j)" by simp
    then show ?thesis by blast
  qed
qed

lemma lowerOrder_not_hash:
  "\<forall>f agg by ob l. from \<noteq> HashAggregate f agg by ob l \<Longrightarrow>
   lowerOrder X Columns from =
     (if surviving_columns Columns = [] then (Inr from, from)
      else case lowerOrder_dup X (surviving_columns Columns) of
        Some n \<Rightarrow> (Inl (Errorf ''duplicate order by expression %q'' [n]), from)
      | None \<Rightarrow> (Inr (OrderBy from (surviving_columns Columns) 0 0), from))"
  by (cases "from"; hypsubst_thin; simp add: lowerOrder_columns_spec Let_def)

text \<open>
  C7. An Order step over an upstream operator that is not a hash aggregate: the columns
  whose expression is a literal bool, integer, rational, float or string are dropped
  first. If none is left, the upstream operator is returned as it is and no OrderBy is
  added. If two of the columns left are equivalent (expr.Equivalent, an earlier one
  against a later one), the lowering fails with the error "duplicate order by
  expression", which names the later one; literals were dropped before, so they never
  cause it. Otherwise an OrderBy over the upstream with the columns left is returned.
  The upstream operator is never written to.
\<close>

theorem lowerOrder_ordinary:
  assumes "\<forall>f agg by ob l. from \<noteq> HashAggregate f agg by ob l"
  shows
    "snd (lowerOrder X Columns from) = from \<and>
     (surviving_columns Columns = [] \<longrightarrow> fst (lowerOrder X Columns from) = Inr from) \<and>
     ((\<exists>i j. i < j \<and> j < length (surviving_columns Columns) \<and>
          Equivalent X (obc_Node (surviving_columns Columns ! i))
                       (obc_Node (surviving_columns Columns ! j))) \<longrightarrow>
      (\<exists>i j. i < j \<and> j < length (surviving_columns Columns) \<and>
          Equivalent X (obc_Node (surviving_columns Columns ! i))
                       (obc_Node (surviving_columns Columns ! j)) \<and>
          fst (lowerOrder X Columns from) =
            Inl (Errorf ''duplicate order by expression %q''
                   [obc_Node (surviving_columns Columns ! j)]))) \<and>
     (surviving_columns Columns \<noteq> [] \<and>
      (\<forall>i j. i < j \<and> j < length (surviving_columns Columns) \<longrightarrow>
          \<not> Equivalent X (obc_Node (surviving_columns Columns ! i))
                         (obc_Node (surviving_columns Columns ! j))) \<longrightarrow>
      fst (lowerOrder X Columns from) = Inr (OrderBy from (surviving_columns Columns) 0 0))"
proof -
  let ?cs = "surviving_columns Columns"
  note eq = lowerOrder_not_hash [OF assms, of X Columns]
  have s: "snd (lowerOrder X Columns from) = from"
    by (simp add: eq split: option.splits)
  have e: "?cs = [] \<longrightarrow> fst (lowerOrder X Columns from) = Inr from"
    by (simp add: eq)
  have d: "(\<exists>i j. i < j \<and> j < length ?cs \<and> Equivalent X (obc_Node (?cs ! i)) (obc_Node (?cs ! j))) \<longrightarrow>
      (\<exists>i j. i < j \<and> j < length ?cs \<and> Equivalent X (obc_Node (?cs ! i)) (obc_Node (?cs ! j)) \<and>
          fst (lowerOrder X Columns from) =
            Inl (Errorf ''duplicate order by expression %q'' [obc_Node (?cs ! j)]))"
  proof
    assume ex: "\<exists>i j. i < j \<and> j < length ?cs \<and> Equivalent X (obc_Node (?cs ! i)) (obc_Node (?cs ! j))"
    then have ne: "?cs \<noteq> []" by auto
    from ex have "lowerOrder_dup X ?cs \<noteq> None"
      by (simp add: lowerOrder_dup_None)
    then obtain m where m: "lowerOrder_dup X ?cs = Some m" by auto
    from lowerOrder_dup_Some [OF m] obtain i j where
      ij: "i < j" "j < length ?cs" "Equivalent X (obc_Node (?cs ! i)) (obc_Node (?cs ! j))"
      "m = obc_Node (?cs ! j)" by blast
    have "fst (lowerOrder X Columns from) =
        Inl (Errorf ''duplicate order by expression %q'' [obc_Node (?cs ! j)])"
      using ne m ij(4) by (simp add: eq)
    with ij show "\<exists>i j. i < j \<and> j < length ?cs \<and>
        Equivalent X (obc_Node (?cs ! i)) (obc_Node (?cs ! j)) \<and>
        fst (lowerOrder X Columns from) =
          Inl (Errorf ''duplicate order by expression %q'' [obc_Node (?cs ! j)])"
      by blast
  qed
  have n: "?cs \<noteq> [] \<and>
      (\<forall>i j. i < j \<and> j < length ?cs \<longrightarrow> \<not> Equivalent X (obc_Node (?cs ! i)) (obc_Node (?cs ! j))) \<longrightarrow>
      fst (lowerOrder X Columns from) = Inr (OrderBy from ?cs 0 0)"
  proof
    assume a: "?cs \<noteq> [] \<and>
      (\<forall>i j. i < j \<and> j < length ?cs \<longrightarrow> \<not> Equivalent X (obc_Node (?cs ! i)) (obc_Node (?cs ! j)))"
    then have "lowerOrder_dup X ?cs = None"
      using lowerOrder_dup_None [of X ?cs] by blast
    with a show "fst (lowerOrder X Columns from) = Inr (OrderBy from ?cs 0 0)"
      by (simp add: eq)
  qed
  from s e d n show ?thesis by blast
qed

text \<open>
  C6. An Order step over a hash aggregate: every order column is resolved
  by name, first against the result names of the aggregates (the entry's column is the
  position of the first aggregate that matches), then against the result names of the
  group-by bindings (the entry's column is the number of aggregates plus the position of
  the first binding that matches). When every column is resolved, the entries are
  appended in order to the order-by list of the hash aggregate and that hash aggregate
  is returned. When a column is resolved by neither list, the lowering fails at the
  first such column with the plain error "cannot ORDER BY expression", which does not
  wrap ErrNotSupported.
\<close>

theorem lowerOrder_hash_aggregate:
  "(list_all (\<lambda>c. order_entry X agg by c \<noteq> None) Columns \<longrightarrow>
      lowerOrder X Columns (HashAggregate f agg by ob l) =
        (Inr (HashAggregate f agg by (ob @ map (the \<circ> order_entry X agg by) Columns) l),
         HashAggregate f agg by (ob @ map (the \<circ> order_entry X agg by) Columns) l)) \<and>
   (\<forall>c. find (\<lambda>c. order_entry X agg by c = None) Columns = Some c \<longrightarrow>
      fst (lowerOrder X Columns (HashAggregate f agg by ob l)) =
        Inl (Errorf ''cannot ORDER BY expression %q'' [Column c]) \<and>
      \<not> is_ErrNotSupported (Errorf ''cannot ORDER BY expression %q'' [Column c]))"
proof -
  let ?unresolved = "\<lambda>c. order_entry X agg by c = None"
  let ?resolved = "\<lambda>c. order_entry X agg by c \<noteq> None"
  have all: "list_all ?resolved cs \<Longrightarrow> find ?unresolved cs = None \<and> takeWhile ?resolved cs = cs"
    for cs
    by (induction cs) auto
  have A: "list_all ?resolved Columns \<longrightarrow>
      lowerOrder X Columns (HashAggregate f agg by ob l) =
        (Inr (HashAggregate f agg by (ob @ map (the \<circ> order_entry X agg by) Columns) l),
         HashAggregate f agg by (ob @ map (the \<circ> order_entry X agg by) Columns) l)"
  proof
    assume "list_all ?resolved Columns"
    from all [OF this] have f: "find ?unresolved Columns = None"
      and t: "takeWhile ?resolved Columns = Columns" by blast+
    show "lowerOrder X Columns (HashAggregate f agg by ob l) =
        (Inr (HashAggregate f agg by (ob @ map (the \<circ> order_entry X agg by) Columns) l),
         HashAggregate f agg by (ob @ map (the \<circ> order_entry X agg by) Columns) l)"
      by (simp only: lowerOrder.simps lowerOrder_hash_spec f t option.case prod.case)
  qed
  have B: "\<forall>c. find ?unresolved Columns = Some c \<longrightarrow>
      fst (lowerOrder X Columns (HashAggregate f agg by ob l)) =
        Inl (Errorf ''cannot ORDER BY expression %q'' [Column c]) \<and>
      \<not> is_ErrNotSupported (Errorf ''cannot ORDER BY expression %q'' [Column c])"
    by (simp add: lowerOrder_hash_spec)
  from A B show ?thesis ..
qed

theorem lowerOrder_ordinary_witness:
  "fst (lowerOrder structural
          [Order (Integer 1) False False, Order (String ''a'') True False]
          (Leaf 0 :: nat Op)) = Inr (Leaf 0) \<and>
   fst (lowerOrder structural
          [Order (Integer 1) False False, Order (Path ''x'') False False,
           Order (Integer 1) True False]
          (Leaf 0 :: nat Op)) =
     Inr (OrderBy (Leaf 0) [OrderByColumn (Path ''x'') False False] 0 0) \<and>
   fst (lowerOrder structural
          [Order (Path ''x'') False False, Order (Path ''y'') False False,
           Order (Path ''x'') True False]
          (Leaf 0 :: nat Op)) =
     Inl (Errorf ''duplicate order by expression %q'' [Path ''x''])"
proof -
  have nh: "\<forall>f agg by ob l. (Leaf 0 :: nat Op) \<noteq> HashAggregate f agg by ob l"
    by simp
  note inst = lowerOrder_ordinary [OF nh, of structural]
  have dup: "\<exists>i j. i < j \<and>
      j < length (surviving_columns [Order (Path ''x'') False False,
             Order (Path ''y'') False False, Order (Path ''x'') True False]) \<and>
      Equivalent structural
        (obc_Node (surviving_columns [Order (Path ''x'') False False,
             Order (Path ''y'') False False, Order (Path ''x'') True False] ! i))
        (obc_Node (surviving_columns [Order (Path ''x'') False False,
             Order (Path ''y'') False False, Order (Path ''x'') True False] ! j))"
    by (rule exI [of _ 0], rule exI [of _ 2]) (simp add: surviving_columns_def structural_def)
  show ?thesis
    using dup
      inst [of "[Order (Integer 1) False False, Order (String ''a'') True False]"]
      inst [of "[Order (Integer 1) False False, Order (Path ''x'') False False,
                 Order (Integer 1) True False]"]
      inst [of "[Order (Path ''x'') False False, Order (Path ''y'') False False,
                 Order (Path ''x'') True False]"]
    by (simp add: surviving_columns_def structural_def)
qed

theorem lowerOrder_hash_aggregate_witness:
  "lowerOrder structural
      [Order (Path ''k'') True False, Order (Path ''n'') False True]
      (HashAggregate (Leaf 0) [AggBinding (Aggregate 0 Star None) ''n'']
         [Binding (Path ''k'') ''k''] [] 0 :: nat Op) =
     (Inr (HashAggregate (Leaf 0) [AggBinding (Aggregate 0 Star None) ''n'']
             [Binding (Path ''k'') ''k''] [HashOrder 1 True False, HashOrder 0 False True] 0),
      HashAggregate (Leaf 0) [AggBinding (Aggregate 0 Star None) ''n'']
             [Binding (Path ''k'') ''k''] [HashOrder 1 True False, HashOrder 0 False True] 0) \<and>
   fst (lowerOrder structural
      [Order (Path ''n'') False False, Order (Path ''z'') False False]
      (HashAggregate (Leaf 0) [AggBinding (Aggregate 0 Star None) ''n'']
         [Binding (Path ''k'') ''k''] [] 0 :: nat Op)) =
     Inl (Errorf ''cannot ORDER BY expression %q'' [Path ''z''])"
  using
    lowerOrder_hash_aggregate [of structural "[AggBinding (Aggregate 0 Star None) ''n'']"
      "[Binding (Path ''k'') ''k'']"
      "[Order (Path ''k'') True False, Order (Path ''n'') False True]"
      "Leaf 0 :: nat Op" "[]" 0]
    lowerOrder_hash_aggregate [of structural "[AggBinding (Aggregate 0 Star None) ''n'']"
      "[Binding (Path ''k'') ''k'']"
      "[Order (Path ''n'') False False, Order (Path ''z'') False False]"
      "Leaf 0 :: nat Op" "[]" 0]
  by (simp add: order_entry_def structural_def)

theorem lowerOrder_unresolved_counterexample:
  "fst (lowerOrder structural [Order (Path ''z'') False False]
      (HashAggregate (Leaf 0) [AggBinding (Aggregate 0 Star None) ''n'']
         [Binding (Path ''k'') ''k''] [] 0 :: nat Op)) =
     Inl (Errorf ''cannot ORDER BY expression %q'' [Path ''z'']) \<and>
   \<not> is_ErrNotSupported (Errorf ''cannot ORDER BY expression %q'' [Path ''z''])"
  by (simp add: structural_def)

section \<open>Properties of the lowering of SELECT INTO\<close>

text \<open>
  C9. OutputPart and OutputIndex are lowered to their operators exactly when
  the environment implements UploadEnv and its Uploader method returns an uploader; the
  operator of OutputIndex then holds whatever the Key method returns, present or not:
  the key is not checked. In every other case the lowering fails with the error
  "cannot handle INTO with Env that doesn't support UploadEnv" and produces no operator.
\<close>

theorem lowerOutput_gate:
  "(\<forall>ue up. e = Some ue \<and> Uploader ue = Some up \<longrightarrow>
      lowerOutputPart b e input = Inr (OutputPart input b up) \<and>
      lowerOutputIndex t b e input = Inr (OutputIndex input t b up (Key_of ue))) \<and>
   (e = None \<or> (\<exists>ue. e = Some ue \<and> Uploader ue = None) \<longrightarrow>
      lowerOutputPart b e input =
        Inl (Errorf ''cannot handle INTO with Env that doesn't support UploadEnv'' []) \<and>
      lowerOutputIndex t b e input =
        Inl (Errorf ''cannot handle INTO with Env that doesn't support UploadEnv'' []))"
  by (auto simp: lowerOutputPart_def lowerOutputIndex_def)

theorem lowerOutput_gate_witness:
  "lowerOutputPart ''part'' (Some \<lparr>Uploader = Some (UploadFS ''s3''), Key_of = Some (Key [1])\<rparr>)
      (Leaf 0 :: nat Op) = Inr (OutputPart (Leaf 0) ''part'' (UploadFS ''s3'')) \<and>
   lowerOutputIndex (Path ''t'') ''part''
      (Some \<lparr>Uploader = Some (UploadFS ''s3''), Key_of = Some (Key [1])\<rparr>) (Leaf 0 :: nat Op) =
     Inr (OutputIndex (Leaf 0) (Path ''t'') ''part'' (UploadFS ''s3'') (Some (Key [1]))) \<and>
   lowerOutputPart ''part'' None (Leaf 0 :: nat Op) =
     Inl (Errorf ''cannot handle INTO with Env that doesn't support UploadEnv'' []) \<and>
   lowerOutputIndex (Path ''t'') ''part''
      (Some \<lparr>Uploader = None, Key_of = Some (Key [1])\<rparr>) (Leaf 0 :: nat Op) =
     Inl (Errorf ''cannot handle INTO with Env that doesn't support UploadEnv'' [])"
  using
    lowerOutput_gate [of "Some \<lparr>Uploader = Some (UploadFS ''s3''), Key_of = Some (Key [1])\<rparr>"
      "''part''" "Leaf 0 :: nat Op" "Path ''t''"]
    lowerOutput_gate [of None "''part''" "Leaf 0 :: nat Op" "Path ''t''"]
    lowerOutput_gate [of "Some \<lparr>Uploader = None, Key_of = Some (Key [1])\<rparr>"
      "''part''" "Leaf 0 :: nat Op" "Path ''t''"]
  by simp

theorem lowerOutputIndex_no_key_counterexample:
  "lowerOutputIndex (Path ''t'') ''part'' (Some \<lparr>Uploader = Some (UploadFS ''s3''), Key_of = None\<rparr>)
      (Leaf 0 :: nat Op) =
     Inr (OutputIndex (Leaf 0) (Path ''t'') ''part'' (UploadFS ''s3'') None)"
  by (simp add: lowerOutputIndex_def)

section \<open>Properties of merge\<close>

lemma distinct_remdups_adj_sorted:
  "sorted xs \<Longrightarrow> distinct (remdups_adj xs)"
  by (induction xs rule: remdups_adj.induct) auto

lemma merge_rejects: "\<not> fst (merge X i inp) \<Longrightarrow> snd (merge X i inp) = i"
  by (simp add: merge_def Let_def split: if_splits)

text \<open>
  C3. merge succeeds exactly when Table.Equals holds of the two table
  expressions and expr.Equal of the two filters; a merge that fails leaves the receiver
  as it was. A merge that succeeds sets the cached handle of the receiver to nil and
  keeps its table and filter. If the receiver has all-fields already, its hints stay as
  they are, field set included; if only the other side has all-fields, the receiver gets
  all-fields and an empty field set; otherwise the field set of the receiver becomes the
  sorted concatenation of the two field sets without duplicates. So when the receiver
  has an empty field set whenever it has all-fields, all-fields on either side gives
  all-fields with an empty field set.
\<close>

theorem merge_hints:
  "(fst (merge X i inp) \<longleftrightarrow>
      Equals X (table i) (table inp) \<and> Equal X (Filter (hints i)) (Filter (hints inp))) \<and>
   (\<not> fst (merge X i inp) \<longrightarrow> snd (merge X i inp) = i) \<and>
   (fst (merge X i inp) \<longrightarrow>
      handle (snd (merge X i inp)) = nil_handle \<and>
      table (snd (merge X i inp)) = table i \<and>
      Filter (hints (snd (merge X i inp))) = Filter (hints i) \<and>
      (AllFields (hints i) \<longrightarrow>
         AllFields (hints (snd (merge X i inp))) \<and>
         Fields (hints (snd (merge X i inp))) = Fields (hints i)) \<and>
      (\<not> AllFields (hints i) \<and> AllFields (hints inp) \<longrightarrow>
         AllFields (hints (snd (merge X i inp))) \<and>
         Fields (hints (snd (merge X i inp))) = []) \<and>
      (\<not> AllFields (hints i) \<and> \<not> AllFields (hints inp) \<longrightarrow>
         \<not> AllFields (hints (snd (merge X i inp))) \<and>
         Fields (hints (snd (merge X i inp))) =
           remdups_adj (sort (Fields (hints i) @ Fields (hints inp))) \<and>
         sorted (Fields (hints (snd (merge X i inp)))) \<and>
         distinct (Fields (hints (snd (merge X i inp)))) \<and>
         set (Fields (hints (snd (merge X i inp)))) =
           set (Fields (hints i)) \<union> set (Fields (hints inp))) \<and>
      ((AllFields (hints i) \<longrightarrow> Fields (hints i) = []) \<and>
       (AllFields (hints i) \<or> AllFields (hints inp)) \<longrightarrow>
         AllFields (hints (snd (merge X i inp))) \<and>
         Fields (hints (snd (merge X i inp))) = []))"
proof -
  have sd: "sorted (remdups_adj (sort ys)) \<and> distinct (remdups_adj (sort ys)) \<and>
      set (remdups_adj (sort ys)) = set ys" for ys :: "string list"
    by (simp add: distinct_remdups_adj_sorted)
  show ?thesis
    using sd [of "Fields (hints i) @ Fields (hints inp)"]
    by (simp add: merge_def Let_def)
qed


theorem merge_hints_witness:
  "merge structural
     \<lparr>table = Table (Path ''t'') ''t'',
      hints = \<lparr>Filter = None, Fields = [''b'', ''a''], AllFields = False\<rparr>,
      handle = Handle (7::nat)\<rparr>
     \<lparr>table = Table (Path ''t'') ''t'',
      hints = \<lparr>Filter = None, Fields = [''c'', ''a''], AllFields = False\<rparr>,
      handle = nil_handle\<rparr> =
     (True, \<lparr>table = Table (Path ''t'') ''t'',
             hints = \<lparr>Filter = None, Fields = [''a'', ''b'', ''c''], AllFields = False\<rparr>,
             handle = nil_handle\<rparr>) \<and>
   merge structural
     \<lparr>table = Table (Path ''t'') ''t'',
      hints = \<lparr>Filter = None, Fields = [''b'', ''a''], AllFields = False\<rparr>,
      handle = Handle (7::nat)\<rparr>
     \<lparr>table = Table (Path ''t'') ''t'',
      hints = \<lparr>Filter = None, Fields = [], AllFields = True\<rparr>,
      handle = nil_handle\<rparr> =
     (True, \<lparr>table = Table (Path ''t'') ''t'',
             hints = \<lparr>Filter = None, Fields = [], AllFields = True\<rparr>,
             handle = nil_handle\<rparr>) \<and>
   merge structural
     \<lparr>table = Table (Path ''t'') ''t'',
      hints = \<lparr>Filter = None, Fields = [''b'', ''a''], AllFields = False\<rparr>,
      handle = Handle (7::nat)\<rparr>
     \<lparr>table = Table (Path ''t'') ''t'',
      hints = \<lparr>Filter = Some (Other ''x > 1''), Fields = [''c''], AllFields = False\<rparr>,
      handle = nil_handle\<rparr> =
     (False, \<lparr>table = Table (Path ''t'') ''t'',
              hints = \<lparr>Filter = None, Fields = [''b'', ''a''], AllFields = False\<rparr>,
              handle = Handle (7::nat)\<rparr>)"
  using
    merge_hints [of structural
      "\<lparr>table = Table (Path ''t'') ''t'',
        hints = \<lparr>Filter = None, Fields = [''b'', ''a''], AllFields = False\<rparr>,
        handle = Handle (7::nat)\<rparr>"
      "\<lparr>table = Table (Path ''t'') ''t'',
        hints = \<lparr>Filter = None, Fields = [''c'', ''a''], AllFields = False\<rparr>,
        handle = nil_handle\<rparr>"]
    merge_hints [of structural
      "\<lparr>table = Table (Path ''t'') ''t'',
        hints = \<lparr>Filter = None, Fields = [''b'', ''a''], AllFields = False\<rparr>,
        handle = Handle (7::nat)\<rparr>"
      "\<lparr>table = Table (Path ''t'') ''t'',
        hints = \<lparr>Filter = None, Fields = [], AllFields = True\<rparr>,
        handle = nil_handle\<rparr>"]
    merge_hints [of structural
      "\<lparr>table = Table (Path ''t'') ''t'',
        hints = \<lparr>Filter = None, Fields = [''b'', ''a''], AllFields = False\<rparr>,
        handle = Handle (7::nat)\<rparr>"
      "\<lparr>table = Table (Path ''t'') ''t'',
        hints = \<lparr>Filter = Some (Other ''x > 1''), Fields = [''c''], AllFields = False\<rparr>,
        handle = nil_handle\<rparr>"]
  by (simp add: merge_def structural_def)

theorem merge_all_fields_counterexample:
  "merge structural
     \<lparr>table = Table (Path ''t'') ''t'',
      hints = \<lparr>Filter = None, Fields = [''a''], AllFields = True\<rparr>,
      handle = Handle (7::nat)\<rparr>
     \<lparr>table = Table (Path ''t'') ''t'',
      hints = \<lparr>Filter = None, Fields = [''b''], AllFields = False\<rparr>,
      handle = nil_handle\<rparr> =
     (True, \<lparr>table = Table (Path ''t'') ''t'',
             hints = \<lparr>Filter = None, Fields = [''a''], AllFields = True\<rparr>,
             handle = nil_handle\<rparr>)"
  by (simp add: merge_def structural_def)

section \<open>Properties of splitting\<close>

lemma split_each_append:
  "split_each sp tbl (xs @ ys) =
     (case split_each sp tbl xs of
        (Inl err, calls) \<Rightarrow> (Inl err, calls)
      | (Inr r, calls) \<Rightarrow>
          (case split_each sp tbl ys of
             (Inl err, calls') \<Rightarrow> (Inl err, calls @ calls')
           | (Inr r', calls') \<Rightarrow> (Inr (r @ r'), calls @ calls')))"
  by (induction xs) (auto split: sum.splits prod.splits option.splits)

lemma split_each_success:
  "\<forall>h\<in>set hs. Split sp tbl h = Inr (Some (f h)) \<Longrightarrow>
   split_each sp tbl hs = (Inr (concat (map f hs)), map (Pair tbl) hs)"
  by (induction hs) auto

lemma doSplit_simple:
  "\<not> compound th \<Longrightarrow> doSplit (Some sp) tbl th = (Split sp tbl th, [(tbl, th)])"
  by (cases th) simp_all

lemma doSplit_loop_spec:
  assumes "\<And>h. h \<in> set hs \<Longrightarrow>
             doSplit (Some sp) tbl h = some_result (split_each sp tbl (leaves h))"
  shows "doSplit_loop (Some sp) tbl hs (Some acc) =
           (case split_each sp tbl (concat (map leaves hs)) of
              (Inl err, calls) \<Rightarrow> (Inl err, calls)
            | (Inr rs, calls) \<Rightarrow> (Inr (Some (acc @ rs)), calls))"
  using assms
proof (induction hs arbitrary: acc)
  case Nil
  show ?case by simp
next
  case (Cons h hs)
  have h: "doSplit (Some sp) tbl h = some_result (split_each sp tbl (leaves h))"
    using Cons.prems by simp
  have ih: "doSplit_loop (Some sp) tbl hs (Some acc') =
           (case split_each sp tbl (concat (map leaves hs)) of
              (Inl err, calls) \<Rightarrow> (Inl err, calls)
            | (Inr rs, calls) \<Rightarrow> (Inr (Some (acc' @ rs)), calls))" for acc'
    using Cons.IH Cons.prems by simp
  show ?case
    by (simp add: h ih some_result_def split_each_append
        split: sum.splits prod.splits)
qed

lemma doSplit_loop_first:
  assumes "\<And>h. h \<in> set hs \<Longrightarrow>
             doSplit (Some sp) tbl h = some_result (split_each sp tbl (leaves h))"
    and "hs \<noteq> []"
  shows "doSplit_loop (Some sp) tbl hs None =
           some_result (split_each sp tbl (concat (map leaves hs)))"
proof -
  from assms(2) obtain h rest where hs: "hs = h # rest"
    by (cases hs) auto
  have h: "doSplit (Some sp) tbl h = some_result (split_each sp tbl (leaves h))"
    using assms(1) hs by simp
  have rest: "doSplit_loop (Some sp) tbl rest (Some acc) =
           (case split_each sp tbl (concat (map leaves rest)) of
              (Inl err, calls) \<Rightarrow> (Inl err, calls)
            | (Inr rs, calls) \<Rightarrow> (Inr (Some (acc @ rs)), calls))" for acc
    using doSplit_loop_spec [of rest sp tbl acc] assms(1) hs by simp
  show ?thesis
    by (simp add: hs h rest some_result_def split_each_append
        split: sum.splits prod.splits)
qed

lemma doSplit_spec:
  "no_empty_compound th \<Longrightarrow> \<forall>h\<in>set (leaves th). Split sp tbl h \<noteq> Inr None \<Longrightarrow>
   doSplit (Some sp) tbl th = some_result (split_each sp tbl (leaves th))"
proof (induction th)
  case nil_handle
  then show ?case by (auto simp: some_result_def split: sum.splits)
next
  case (Handle x)
  then show ?case by (auto simp: some_result_def split: sum.splits)
next
  case (tableHandles hs)
  have "\<And>h. h \<in> set hs \<Longrightarrow>
      doSplit (Some sp) tbl h = some_result (split_each sp tbl (leaves h))"
    using tableHandles by (simp add: list_all_iff)
  moreover have "hs \<noteq> []"
    using tableHandles.prems by simp
  ultimately show ?case
    by (simp add: doSplit_loop_first)
qed


section \<open>Properties of interning and of the walk\<close>

lemma accepts_key:
  "key_of a = key_of a' \<Longrightarrow> key_of b = key_of b' \<Longrightarrow> accepts X a b = accepts X a' b'"
  by (simp add: accepts_def key_of_def)

lemma interned_nth:
  "interned X ins \<longleftrightarrow>
     (\<forall>a b. a < b \<and> b < length ins \<longrightarrow> \<not> accepts X (ins ! a) (ins ! b))"
proof (induction ins)
  case Nil
  show ?case by simp
next
  case (Cons i ins)
  have "(\<forall>a b. a < b \<and> b < length (i # ins) \<longrightarrow> \<not> accepts X ((i # ins) ! a) ((i # ins) ! b)) \<longleftrightarrow>
        (\<forall>b<length ins. \<not> accepts X i (ins ! b)) \<and>
        (\<forall>a b. a < b \<and> b < length ins \<longrightarrow> \<not> accepts X (ins ! a) (ins ! b))"
    (is "?L \<longleftrightarrow> ?A \<and> ?B")
  proof
    assume L: ?L
    have ?A
    proof (intro allI impI)
      fix b assume "b < length ins"
      with L [rule_format, of 0 "Suc b"] show "\<not> accepts X i (ins ! b)" by simp
    qed
    moreover have ?B
    proof (intro allI impI)
      fix a b assume "a < b \<and> b < length ins"
      with L [rule_format, of "Suc a" "Suc b"] show "\<not> accepts X (ins ! a) (ins ! b)" by simp
    qed
    ultimately show "?A \<and> ?B" ..
  next
    assume AB: "?A \<and> ?B"
    show ?L
    proof (intro allI impI)
      fix a b assume ab: "a < b \<and> b < length (i # ins)"
      then obtain b' where b': "b = Suc b'" "b' < length ins"
        by (cases b) auto
      show "\<not> accepts X ((i # ins) ! a) ((i # ins) ! b)"
      proof (cases a)
        case 0
        with AB b' show ?thesis by simp
      next
        case (Suc a')
        with AB b' ab show ?thesis by simp
      qed
    qed
  qed
  then show ?case
    by (simp add: Cons.IH list_all_length)
qed

lemma interned_keys:
  assumes "map key_of ins = map key_of ins'"
  shows "interned X ins = interned X ins'"
proof -
  from assms have len: "length ins = length ins'"
    by (rule map_eq_imp_length_eq)
  have k: "key_of (ins ! a) = key_of (ins' ! a)" if "a < length ins" for a
    using assms that len by (metis nth_map)
  have "accepts X (ins ! a) (ins ! b) = accepts X (ins' ! a) (ins' ! b)"
    if "a < b" "b < length ins" for a b
    using that k [of a] k [of b] by (intro accepts_key) auto
  then show ?thesis
    unfolding interned_nth len [symmetric] by blast
qed

lemma interned_snoc_set:
  "interned X (ins @ [inp]) \<longleftrightarrow> interned X ins \<and> (\<forall>i\<in>set ins. \<not> accepts X i inp)"
  by (induction ins) (auto simp: list_all_iff)

lemma interned_snoc:
  "interned X (ins @ [inp]) \<longleftrightarrow>
     interned X ins \<and> (\<forall>j<length ins. \<not> accepts X (ins ! j) inp)"
  by (simp add: interned_snoc_set all_set_conv_all_nth)

lemma merge_fst_accepts: "fst (merge X i inp) = accepts X i inp"
  by (simp add: merge_def accepts_def Let_def)

lemma merge_key: "key_of (snd (merge X i inp)) = key_of i"
  by (simp add: merge_def key_of_def Let_def)

lemma put_scan_None_set:
  "put_scan X ins inp = None \<longleftrightarrow> (\<forall>i\<in>set ins. \<not> accepts X i inp)"
proof (induction ins)
  case Nil
  show ?case by simp
next
  case (Cons i ins)
  obtain ok i' where m: "merge X i inp = (ok, i')" by (cases "merge X i inp")
  with merge_fst_accepts [of X i inp] have ok: "ok = accepts X i inp" by simp
  show ?case
  proof (cases ok)
    case True
    with m ok show ?thesis by simp
  next
    case False
    with m ok Cons.IH show ?thesis by (auto split: option.splits)
  qed
qed

lemma put_scan_None:
  "put_scan X ins inp = None \<longleftrightarrow> (\<forall>j<length ins. \<not> accepts X (ins ! j) inp)"
  by (simp add: put_scan_None_set all_set_conv_all_nth)

lemma put_scan_Some:
  "put_scan X ins inp = Some (k, ins') \<Longrightarrow>
     k < length ins \<and> accepts X (ins ! k) inp \<and> (\<forall>j<k. \<not> accepts X (ins ! j) inp) \<and>
     ins' = ins[k := snd (merge X (ins ! k) inp)]"
proof (induction ins arbitrary: k ins')
  case Nil
  then show ?case by simp
next
  case (Cons i ins)
  obtain ok i' where m: "merge X i inp = (ok, i')" by (cases "merge X i inp")
  with merge_fst_accepts [of X i inp] have ok: "ok = accepts X i inp" by simp
  from m merge_rejects [of X i inp] have rej: "\<not> ok \<Longrightarrow> i' = i" by simp
  show ?case
  proof (cases ok)
    case True
    with Cons.prems m ok show ?thesis by auto
  next
    case False
    with Cons.prems m obtain k0 rest' where
      r: "put_scan X ins inp = Some (k0, rest')" "k = Suc k0" "ins' = i' # rest'"
      by (auto split: option.splits)
    from Cons.IH [OF r(1)] False ok rej r(2,3) show ?thesis
      by (auto simp: less_Suc_eq_0_disj)
  qed
qed


lemma put_unfold:
  "put X w it =
     (case put_scan X (inputs w) (new_input it) of
        Some (i, ins) \<Rightarrow> (i, w\<lparr>inputs := ins\<rparr>)
      | None \<Rightarrow> (length (inputs w), w\<lparr>inputs := inputs w @ [new_input it]\<rparr>))"
  unfolding put_def new_input_def Let_def by (rule refl)

lemma put_inv:
  assumes "put X w it = (i, w')"
  shows "env w' = env w \<and> split w' = split w \<and> i < length (inputs w') \<and>
         length (inputs w) \<le> length (inputs w') \<and>
         (interned X (inputs w) \<longrightarrow> interned X (inputs w'))"
proof (cases "put_scan X (inputs w) (new_input it)")
  case None
  with assms have w': "w' = w\<lparr>inputs := inputs w @ [new_input it]\<rparr>" "i = length (inputs w)"
    by (simp_all add: put_unfold)
  from None have "\<forall>j<length (inputs w). \<not> accepts X (inputs w ! j) (new_input it)"
    by (simp add: put_scan_None)
  with w' show ?thesis
    by (simp add: interned_snoc)
next
  case (Some p)
  obtain k ins where p: "p = (k, ins)" by (cases p)
  with Some assms have w': "w' = w\<lparr>inputs := ins\<rparr>" "i = k"
    by (simp_all add: put_unfold)
  from put_scan_Some [OF Some [unfolded p]] have
    k: "k < length (inputs w)"
    and ins: "ins = (inputs w)[k := snd (merge X (inputs w ! k) (new_input it))]"
    by blast+
  have "map key_of ins = map key_of (inputs w)"
    unfolding ins using k by (simp add: map_update merge_key list_update_same_conv)
  then have "interned X ins = interned X (inputs w)"
    by (rule interned_keys)
  with w' k ins show ?thesis by simp
qed

lemma input_stat_key: "key_of (snd (input_stat e i)) = key_of i"
  by (simp add: input_stat_def key_of_def split: sum.splits)

lemma lower_refs:
  "lowerIterValue wc v ib ob flt input = Inr op \<Longrightarrow> input_refs op \<subseteq> input_refs input"
  "lowerFilter wh input = Inr op \<Longrightarrow> input_refs op \<subseteq> input_refs input"
  "lowerDistinct cols input = Inr op \<Longrightarrow> input_refs op \<subseteq> input_refs input"
  "lowerBind bs input = Inr op \<Longrightarrow> input_refs op \<subseteq> input_refs input"
  "lowerAggregate agg gb input = Inr op \<Longrightarrow> input_refs op \<subseteq> input_refs input"
  "lowerOutputIndex t b ue input = Inr op \<Longrightarrow> input_refs op \<subseteq> input_refs input"
  "lowerOutputPart b ue input = Inr op \<Longrightarrow> input_refs op \<subseteq> input_refs input"
  by (auto simp: lowerFilter_def lowerDistinct_def lowerBind_def lowerOutputIndex_def
      lowerOutputPart_def split: if_splits node.splits option.splits
      elim!: lowerAggregate.elims)

lemma lowerLimit_refs:
  "fst (lowerLimit c off input) = Inr op \<Longrightarrow> input_refs op \<subseteq> input_refs input"
  by (cases input) (auto simp: Let_def split: if_splits)

lemma lowerOrder_refs:
  "fst (lowerOrder X cols input) = Inr op \<Longrightarrow> input_refs op \<subseteq> input_refs input"
  by (cases input) (auto simp: Let_def split: if_splits option.splits prod.splits)

lemma then_lower_inv:
  assumes "walk_inv X w r"
    and "\<And>input op. lower input = Inr op \<Longrightarrow> input_refs op \<subseteq> input_refs input"
  shows "walk_inv X w (then_lower r lower)"
proof (cases r)
  case (Pair res w')
  show ?thesis
  proof (cases res)
    case (Inl err)
    with Pair assms(1) show ?thesis
      by (simp add: then_lower_def walk_inv_def)
  next
    case (Inr input)
    show ?thesis
    proof (cases "lower input")
      case (Inl err)
      with Pair Inr assms(1) show ?thesis
        by (simp add: then_lower_def walk_inv_def)
    next
      case (Inr op)
      from assms(2) [OF this] have "input_refs op \<subseteq> input_refs input" .
      with Pair \<open>res = Inr input\<close> Inr assms(1) show ?thesis
        by (auto simp: then_lower_def walk_inv_def)
    qed
  qed
qed

lemma lowerUnionMap_split_inv:
  assumes "input < length (inputs w)" and "\<forall>i\<in>input_refs sub. i < length (inputs w)"
  shows "walk_inv X w (lowerUnionMap_split w inner input sub)"
proof -
  obtain r i' where st: "input_stat (env w) (inputs w ! input) = (r, i')"
    by (cases "input_stat (env w) (inputs w ! input)")
  have "key_of i' = key_of (inputs w ! input)"
    using input_stat_key [of "env w" "inputs w ! input"] st by simp
  then have "map key_of ((inputs w)[input := i']) = map key_of (inputs w)"
    using assms(1) by (simp add: map_update list_update_same_conv)
  then have int: "interned X ((inputs w)[input := i']) = interned X (inputs w)"
    by (rule interned_keys)
  show ?thesis
    using assms st int
    by (auto simp: lowerUnionMap_split_def walk_inv_def Let_def
        split: sum.splits option.splits)
qed

lemma walk_inv_trans:
  assumes "env w1 = env w" "split w1 = split w" "length (inputs w) \<le> length (inputs w1)"
    "interned X (inputs w) \<longrightarrow> interned X (inputs w1)" "walk_inv X w1 r"
  shows "walk_inv X w r"
  using assms by (auto simp: walk_inv_def)

lemma walkBuild_inv:
  "walk_inv X w (walkBuild X w st)"
  "walk_inv X w (lowerUnionMap X w inner child)"
proof (induction X w st and X w inner child rule: walkBuild_lowerUnionMap.induct)
  case (1 X w it)
  obtain i w' where p: "put X w it = (i, w')" by (cases "put X w it")
  from put_inv [OF p] show ?case
    by (simp add: p walk_inv_def split: option.splits)
next
  case (2 X w)
  show ?case by (simp add: walk_inv_def)
next
  case (3 X w)
  show ?case by (simp add: walk_inv_def)
next
  case (4 X w inner child)
  then show ?case by simp
next
  case (5 X w parent wildcard val innerBind outerBind filt)
  show ?case unfolding walkBuild.simps by (rule then_lower_inv [OF 5]) (erule lower_refs)
next
  case (6 X w parent Where)
  show ?case unfolding walkBuild.simps by (rule then_lower_inv [OF 6]) (erule lower_refs)
next
  case (7 X w parent Columns)
  show ?case unfolding walkBuild.simps by (rule then_lower_inv [OF 7]) (erule lower_refs)
next
  case (8 X w parent Bindings)
  show ?case unfolding walkBuild.simps by (rule then_lower_inv [OF 8]) (erule lower_refs)
next
  case (9 X w parent Agg GroupBy)
  show ?case unfolding walkBuild.simps by (rule then_lower_inv [OF 9]) (erule lower_refs)
next
  case (10 X w parent Count Offset)
  show ?case unfolding walkBuild.simps by (rule then_lower_inv [OF 10]) (erule lowerLimit_refs)
next
  case (11 X w parent Columns)
  show ?case unfolding walkBuild.simps by (rule then_lower_inv [OF 11]) (erule lowerOrder_refs)
next
  case (12 X w parent Tbl Basename)
  show ?case unfolding walkBuild.simps by (rule then_lower_inv [OF 12]) (erule lower_refs)
next
  case (13 X w parent Basename)
  show ?case unfolding walkBuild.simps by (rule then_lower_inv [OF 13]) (erule lower_refs)
next
  case (14 X w parent)
  show ?case unfolding walkBuild.simps by (rule then_lower_inv [OF 14]) simp
next
  case (15 X w inner final replacements bindings)
  obtain input w1 where p: "put X w inner = (input, w1)" by (cases "put X w inner")
  from put_inv [OF p] have pi: "env w1 = env w" "split w1 = split w"
    "input < length (inputs w1)" "length (inputs w) \<le> length (inputs w1)"
    "interned X (inputs w) \<longrightarrow> interned X (inputs w1)"
    by blast+
  from 15 [OF p [symmetric]] have ih: "walk_inv X w1 (walkBuild X w1 final)" .
  obtain res w2 where wb: "walkBuild X w1 final = (res, w2)"
    by (cases "walkBuild X w1 final")
  have eq: "lowerUnionMap X w inner (Trace final replacements bindings) =
      (case res of Inl err \<Rightarrow> (Inl err, w2)
       | Inr sub \<Rightarrow> lowerUnionMap_split w2 inner input sub)"
    by (simp add: p wb split: sum.splits)
  from ih wb have w2: "env w2 = env w1" "split w2 = split w1"
    "length (inputs w1) \<le> length (inputs w2)"
    "interned X (inputs w1) \<longrightarrow> interned X (inputs w2)"
    by (simp_all add: walk_inv_def)
  have "walk_inv X w2 (lowerUnionMap X w inner (Trace final replacements bindings))"
  proof (cases res)
    case (Inl err)
    then show ?thesis
      unfolding eq by (simp add: walk_inv_def)
  next
    case (Inr sub)
    with ih wb have refs: "\<forall>i\<in>input_refs sub. i < length (inputs w2)"
      by (simp add: walk_inv_def)
    from pi(3) w2(3) have "input < length (inputs w2)" by simp
    from lowerUnionMap_split_inv [OF this refs] Inr show ?thesis
      unfolding eq by simp
  qed
  from walk_inv_trans [OF w2 this]
  have "walk_inv X w1 (lowerUnionMap X w inner (Trace final replacements bindings))" .
  from walk_inv_trans [OF pi(1,2,4,5) this] show ?case .
qed

lemma leaves_flat: "\<forall>h\<in>set hs. \<not> compound h \<Longrightarrow> concat (map leaves hs) = hs"
proof (induction hs)
  case Nil
  show ?case by simp
next
  case (Cons h hs)
  then have "leaves h = [h]" by (cases h) simp_all
  with Cons show ?case by simp
qed

lemma not_compound_no_empty: "\<not> compound h \<Longrightarrow> no_empty_compound h"
  by (cases h) simp_all

lemma doSplit_flat:
  assumes "hs \<noteq> []" and "\<forall>h\<in>set hs. \<not> compound h \<and> Split sp tbl h = Inr (Some (f h))"
  shows "doSplit (Some sp) tbl (tableHandles hs) =
           (Inr (Some (concat (map f hs))), map (Pair tbl) hs)"
proof -
  from assms(2) have flat: "concat (map leaves hs) = hs"
    by (intro leaves_flat) blast
  from assms have ne: "no_empty_compound (tableHandles hs)"
    by (simp add: list_all_iff not_compound_no_empty)
  from assms(2) flat have nn: "\<forall>h\<in>set (leaves (tableHandles hs)). Split sp tbl h \<noteq> Inr None"
    by simp
  from assms(2) have "split_each sp tbl hs = (Inr (concat (map f hs)), map (Pair tbl) hs)"
    by (intro split_each_success) blast
  with doSplit_spec [OF ne nn] flat show ?thesis
    by (simp add: some_result_def)
qed

lemma lowerUnionMap_result:
  assumes "put X w inner = (i, w1)" and "walkBuild X w1 final = (Inr sub, w2)"
    and "input_stat (env w2) (inputs w2 ! i) = (Inr h, i')"
    and "fst (doSplit (split w2) (tbl_Expr (it_Table inner)) h) = Inr (Some tbls)"
  shows "fst (lowerUnionMap X w inner (Trace final reps binds)) =
           (if length tbls = 0 then Inr NoOutput else Inr (UnionMap sub i tbls))"
proof -
  from put_inv [OF assms(1)] have "i < length (inputs w1)" by blast
  moreover from walkBuild_inv(1) [of X w1 final] assms(2)
  have "length (inputs w1) \<le> length (inputs w2)"
    by (simp add: walk_inv_def)
  ultimately have "i < length (inputs w2)" by simp
  with assms show ?thesis
    by (simp add: lowerUnionMap_split_def Let_def)
qed

text \<open>
  C8. doSplit on a handle that is not compound calls the splitter exactly
  once, with the table expression and that handle. On a compound handle it calls, with
  the same table expression, the splitter once for every handle that is not compound
  and is reached through compound members, from left to right, until a call fails; a
  member that is compound itself is never passed to the splitter. When no call fails,
  the result is the in-order append of the results of these calls. (Stated for handles
  in which every compound handle has a member, and for a splitter that returns no nil
  Subtables on them.) In particular a compound handle of N handles that are not compound
  gives N calls, one per member in order, and the append of the N results. When the
  Subtables obtained have length zero, lowerUnionMap returns NoOutput, otherwise the
  UnionMap operator over the lowered child with these Subtables.
\<close>

theorem doSplit_unionmap:
  "(\<not> compound th \<longrightarrow> doSplit (Some sp) tbl th = (Split sp tbl th, [(tbl, th)])) \<and>
   (no_empty_compound th \<and> (\<forall>h\<in>set (leaves th). Split sp tbl h \<noteq> Inr None) \<longrightarrow>
      doSplit (Some sp) tbl th = some_result (split_each sp tbl (leaves th))) \<and>
   (hs \<noteq> [] \<and> (\<forall>h\<in>set hs. \<not> compound h \<and> Split sp tbl h = Inr (Some (f h))) \<longrightarrow>
      doSplit (Some sp) tbl (tableHandles hs) =
        (Inr (Some (concat (map f hs))), map (Pair tbl) hs)) \<and>
   (\<forall>i w1 sub w2 h i' tbls.
      put X w inner = (i, w1) \<and> walkBuild X w1 final = (Inr sub, w2) \<and>
      input_stat (env w2) (inputs w2 ! i) = (Inr h, i') \<and>
      fst (doSplit (split w2) (tbl_Expr (it_Table inner)) h) = Inr (Some tbls) \<longrightarrow>
      fst (lowerUnionMap X w inner (Trace final reps binds)) =
        (if length tbls = 0 then Inr NoOutput else Inr (UnionMap sub i tbls)))"
  using doSplit_simple [of th sp tbl] doSplit_spec [of th sp tbl]
    doSplit_flat [of hs sp tbl f] lowerUnionMap_result [of X w inner _ _ final]
  by blast

theorem doSplit_nested_counterexample:
  "doSplit (Some unit_splitter) (Path ''t'')
      (tableHandles [tableHandles [Handle 1, Handle 2], Handle 3]) =
     (Inr (Some [1, 2, 3]),
      [(Path ''t'', Handle 1), (Path ''t'', Handle 2), (Path ''t'', Handle 3)]) \<and>
   some_result (split_each unit_splitter (Path ''t'')
      [tableHandles [Handle 1, Handle 2], Handle 3]) =
     (Inr (Some [3]),
      [(Path ''t'', tableHandles [Handle 1, Handle 2]), (Path ''t'', Handle 3)])"
  by (simp add: unit_splitter_def some_result_def)


theorem doSplit_unionmap_witness:
  "doSplit (Some unit_splitter) (Path ''t'') (Handle 5) =
     (Inr (Some [5]), [(Path ''t'', Handle 5)]) \<and>
   doSplit (Some unit_splitter) (Path ''t'')
      (tableHandles [tableHandles [Handle 1, Handle 2], Handle 3]) =
     (Inr (Some [1, 2, 3]),
      [(Path ''t'', Handle 1), (Path ''t'', Handle 2), (Path ''t'', Handle 3)]) \<and>
   doSplit (Some unit_splitter) (Path ''t'') (tableHandles [Handle 1, Handle 2]) =
     (Inr (Some [1, 2]), [(Path ''t'', Handle 1), (Path ''t'', Handle 2)]) \<and>
   fst (lowerUnionMap structural (walker_pair unit_splitter) iter_t
          (Trace (pir_IterTable iter_t) [] [])) = Inr (UnionMap (Leaf 0) 0 [1, 2]) \<and>
   fst (lowerUnionMap structural (walker_pair empty_splitter) iter_t
          (Trace (pir_IterTable iter_t) [] [])) = Inr NoOutput"
proof -
  let ?t = "Path ''t''"
  let ?f = "\<lambda>h. case h of Handle n \<Rightarrow> [n::nat] | _ \<Rightarrow> []"
  let ?nested = "tableHandles [tableHandles [Handle 1, Handle 2], Handle (3::nat)]"
  let ?flat = "[Handle 1, Handle (2::nat)]"
  let ?i1 = "new_input iter_t :: nat input"
  have a: "doSplit (Some unit_splitter) ?t (Handle 5) = (Inr (Some [5]), [(?t, Handle 5)])"
    using doSplit_unionmap [of "Handle 5" unit_splitter ?t]
    by (simp add: unit_splitter_def)
  have "no_empty_compound ?nested \<and>
      (\<forall>h\<in>set (leaves ?nested). Split unit_splitter ?t h \<noteq> Inr None)"
    by (simp add: unit_splitter_def)
  with doSplit_unionmap [of ?nested unit_splitter ?t]
  have "doSplit (Some unit_splitter) ?t ?nested =
      some_result (split_each unit_splitter ?t (leaves ?nested))"
    by blast
  then have b: "doSplit (Some unit_splitter) ?t ?nested =
      (Inr (Some [1, 2, 3]), [(?t, Handle 1), (?t, Handle 2), (?t, Handle 3)])"
    by (simp add: unit_splitter_def some_result_def)
  have "?flat \<noteq> [] \<and>
      (\<forall>h\<in>set ?flat. \<not> compound h \<and> Split unit_splitter ?t h = Inr (Some (?f h)))"
    by (simp add: unit_splitter_def)
  with doSplit_unionmap [of _ unit_splitter ?t ?flat ?f]
  have "doSplit (Some unit_splitter) ?t (tableHandles ?flat) =
      (Inr (Some (concat (map ?f ?flat))), map (Pair ?t) ?flat)"
    by blast
  then have c: "doSplit (Some unit_splitter) ?t (tableHandles ?flat) =
      (Inr (Some [1, 2]), [(?t, Handle 1), (?t, Handle 2)])"
    by simp
  have p: "put structural (walker_pair sp) iter_t = (0, (walker_pair sp)\<lparr>inputs := [?i1]\<rparr>)"
    for sp
    by (simp add: put_def walker_pair_def new_input_def Let_def)
  have m: "merge structural ?i1 ?i1 = (True, ?i1)"
    by (simp add: merge_def structural_def new_input_def iter_t_def Let_def)
  have wb: "walkBuild structural ((walker_pair sp)\<lparr>inputs := [?i1]\<rparr>) (pir_IterTable iter_t) =
      (Inr (Leaf 0), (walker_pair sp)\<lparr>inputs := [?i1]\<rparr>)" for sp
  proof -
    have "put structural ((walker_pair sp)\<lparr>inputs := [?i1]\<rparr>) iter_t =
        (0, (walker_pair sp)\<lparr>inputs := [?i1]\<rparr>)"
      using m by (simp add: put_unfold)
    moreover have "it_Filter iter_t = None"
      by (simp add: iter_t_def)
    ultimately show ?thesis by simp
  qed
  have st: "input_stat (env ((walker_pair sp)\<lparr>inputs := [?i1]\<rparr>))
        (inputs ((walker_pair sp)\<lparr>inputs := [?i1]\<rparr>) ! 0) =
      (Inr (tableHandles ?flat), ?i1\<lparr>handle := tableHandles ?flat\<rparr>)" for sp
    by (simp add: input_stat_def walker_pair_def env_pair_def new_input_def)
  have tb: "tbl_Expr (it_Table iter_t) = ?t"
    by (simp add: iter_t_def table_t_def)
  have du: "fst (doSplit (split ((walker_pair unit_splitter)\<lparr>inputs := [?i1]\<rparr>))
        (tbl_Expr (it_Table iter_t)) (tableHandles ?flat)) = Inr (Some [1, 2])"
    by (simp add: walker_pair_def unit_splitter_def)
  have de: "fst (doSplit (split ((walker_pair empty_splitter)\<lparr>inputs := [?i1]\<rparr>))
        (tbl_Expr (it_Table iter_t)) (tableHandles ?flat)) = Inr (Some [])"
    by (simp add: walker_pair_def empty_splitter_def)
  have d: "fst (lowerUnionMap structural (walker_pair unit_splitter) iter_t
          (Trace (pir_IterTable iter_t) [] [])) = Inr (UnionMap (Leaf 0) 0 [1, 2])"
    using doSplit_unionmap [of "Handle 5" unit_splitter ?t "[]" ?f structural
        "walker_pair unit_splitter" iter_t "pir_IterTable iter_t" "[]" "[]"]
      p [of unit_splitter] wb [of unit_splitter] st [of unit_splitter] du
    by auto
  have e: "fst (lowerUnionMap structural (walker_pair empty_splitter) iter_t
          (Trace (pir_IterTable iter_t) [] [])) = Inr NoOutput"
    using doSplit_unionmap [of "Handle 5" unit_splitter ?t "[]" ?f structural
        "walker_pair empty_splitter" iter_t "pir_IterTable iter_t" "[]" "[]"]
      p [of empty_splitter] wb [of empty_splitter] st [of empty_splitter] de
    by auto
  from a b c d e show ?thesis by blast
qed

section \<open>Properties of the tree builder\<close>

lemma toNode_walker: "snd (toNode X ty w tr) = snd (walkBuild X w (Final tr))"
  by (cases tr) (simp split: prod.splits sum.splits)

lemma toNode_op:
  "toNode X ty w tr = (Inr n, w') \<Longrightarrow> walkBuild X w (Final tr) = (Inr (Op n), w')"
  by (cases tr) (auto split: prod.splits sum.splits)

lemma walkBuild_env: "env (snd (walkBuild X w st)) = env w \<and> split (snd (walkBuild X w st)) = split w"
  using walkBuild_inv(1) [of X w st] by (simp add: walk_inv_def)

lemma toNode_parts:
  assumes "toNode X ty w tr = (Inr n, w')"
  shows "fst (toNode_children X ty \<lparr>env = env w, split = split w, inputs = []\<rparr>
           (Replacements tr)) = Inr (Children n) \<and>
         fst (finish (snd (toNode_children X ty \<lparr>env = env w, split = split w, inputs = []\<rparr>
           (Replacements tr)))) = Inr (Inputs n)"
proof -
  obtain final reps binds where tr: "tr = Trace final reps binds" by (cases tr)
  from assms [unfolded tr] obtain op w1 children sub ins sub' where
    wb: "walkBuild X w final = (Inr op, w1)" and
    tc: "toNode_children X ty \<lparr>env = env w1, split = split w1, inputs = []\<rparr> reps =
           (Inr children, sub)" and
    fi: "finish sub = (Inr ins, sub')" and
    n: "n = Node op (results ty (Trace final reps binds)) children ins"
    by (auto split: prod.splits sum.splits)
  from walkBuild_env [of X w final] wb have e: "env w1 = env w" "split w1 = split w"
    by simp_all
  from tc fi n show ?thesis
    by (simp add: tr e)
qed

lemma toNode_children_inv:
  "env (snd (toNode_children X ty sub rs)) = env sub \<and>
   split (snd (toNode_children X ty sub rs)) = split sub \<and>
   length (inputs sub) \<le> length (inputs (snd (toNode_children X ty sub rs))) \<and>
   (interned X (inputs sub) \<longrightarrow> interned X (inputs (snd (toNode_children X ty sub rs))))"
proof (induction rs arbitrary: sub)
  case Nil
  show ?case by simp
next
  case (Cons r rs)
  let ?sub1 = "snd (walkBuild X sub (Final r))"
  have s1: "snd (toNode X ty sub r) = ?sub1" by (rule toNode_walker)
  from walkBuild_inv(1) [of X sub "Final r"]
  have w: "env ?sub1 = env sub" "split ?sub1 = split sub"
    "length (inputs sub) \<le> length (inputs ?sub1)"
    "interned X (inputs sub) \<longrightarrow> interned X (inputs ?sub1)"
    by (simp_all add: walk_inv_def)
  have "snd (toNode_children X ty sub (r # rs)) = ?sub1 \<or>
        snd (toNode_children X ty sub (r # rs)) = snd (toNode_children X ty ?sub1 rs)"
    using s1 by (auto split: prod.splits sum.splits)
  then show ?case
  proof
    assume "snd (toNode_children X ty sub (r # rs)) = ?sub1"
    with w show ?thesis by simp
  next
    assume "snd (toNode_children X ty sub (r # rs)) = snd (toNode_children X ty ?sub1 rs)"
    with w Cons.IH [of ?sub1] show ?thesis by auto
  qed
qed

lemma toNode_interned:
  "toNode X ty (w :: ('h, 's) walker) tr = (Inr n, w') \<Longrightarrow>
     node_interned X ty (env w) (split w) tr n"
  "toNode_children X ty (sub :: ('h, 's) walker) rs = (Inr ns, sub') \<Longrightarrow>
     nodes_interned X ty (env sub) (split sub) rs ns"
proof (induction X ty w tr and X ty sub rs arbitrary: n w' and ns sub'
    rule: toNode_toNode_children.induct)
  case (1 X ty w final replacements bindings)
  let ?tr = "Trace final replacements bindings"
  let ?w0 = "\<lparr>env = env w, split = split w, inputs = []\<rparr> :: ('h, 's) walker"
  from toNode_op [OF "1.prems"] have wb: "walkBuild X w final = (Inr (Op n), w')" by simp
  from walkBuild_env [of X w final] wb have e: "env w' = env w" "split w' = split w"
    by simp_all
  from toNode_parts [OF "1.prems"] have
    ch: "fst (toNode_children X ty ?w0 replacements) = Inr (Children n)" and
    fi: "fst (finish (snd (toNode_children X ty ?w0 replacements))) = Inr (Inputs n)"
    by simp_all
  from toNode_children_inv [of X ty ?w0 replacements]
  have int: "interned X (inputs (snd (toNode_children X ty ?w0 replacements)))"
    by simp
  obtain sub where tc: "toNode_children X ty ?w0 replacements = (Inr (Children n), sub)"
    using ch by (cases "toNode_children X ty ?w0 replacements") auto
  from tc e have tc': "toNode_children X ty \<lparr>env = env w', split = split w', inputs = []\<rparr>
      replacements = (Inr (Children n), sub)"
    by simp
  from "1.IH" [OF wb [symmetric] refl tc'] e
  have "nodes_interned X ty (env w) (split w) replacements (Children n)"
    by simp
  with int fi show ?case by simp
next
  case (2 X ty sub)
  then show ?case by simp
next
  case (3 X ty sub r rs)
  from "3.prems" obtain n sub1 ns' where
    t: "toNode X ty sub r = (Inr n, sub1)" and
    c: "toNode_children X ty sub1 rs = (Inr ns', sub')" and
    ns: "ns = n # ns'"
    by (auto split: prod.splits sum.splits)
  from toNode_walker [of X ty sub r] t walkBuild_env [of X sub "Final r"]
  have e: "env sub1 = env sub" "split sub1 = split sub" by simp_all
  from "3.IH"(1) [OF t] have a: "node_interned X ty (env sub) (split sub) r n" .
  from "3.IH"(2) [OF t [symmetric] refl c] e
  have b: "nodes_interned X ty (env sub) (split sub) rs ns'" by simp
  from a b ns show ?case by simp
qed


lemma finish_loop_tables:
  "fst (finish_loop e ins) = Inr outs \<Longrightarrow> map Input_Table outs = map table ins"
proof (induction ins arbitrary: outs)
  case Nil
  then show ?case by simp
next
  case (Cons i ins)
  obtain r i' where f: "input_finish e i = (r, i')" by (cases "input_finish e i")
  obtain r2 rest' where l: "finish_loop e ins = (r2, rest')" by (cases "finish_loop e ins")
  from Cons.prems f l obtain x xs where
    x: "r = Inr x" and xs: "r2 = Inr xs" and outs: "outs = x # xs"
    by (auto split: sum.splits)
  from f x have "Input_Table x = table i"
    by (auto simp: input_finish_def input_stat_def split: sum.splits if_splits prod.splits)
  moreover from Cons.IH [of xs] l xs have "map Input_Table xs = map table ins" by simp
  ultimately show ?case using outs by simp
qed

lemma finish_tables:
  "fst (finish w) = Inr outs \<Longrightarrow> map Input_Table outs = map table (inputs w)"
  using finish_loop_tables [of "env w" "inputs w" outs]
  by (simp add: finish_def split: prod.splits)

lemma finish_length: "fst (finish w) = Inr outs \<Longrightarrow> length outs = length (inputs w)"
  using finish_tables [of w outs] by (metis length_map)

lemma toNode_children_refs:
  "toNode_children X ty sub rs = (Inr ns, sub') \<Longrightarrow>
     \<forall>c\<in>set ns. \<forall>i\<in>input_refs (Op c). i < length (inputs sub')"
proof (induction rs arbitrary: sub ns)
  case Nil
  then show ?case by simp
next
  case (Cons r rs)
  from Cons.prems obtain n sub1 ns' where
    t: "toNode X ty sub r = (Inr n, sub1)" and
    c: "toNode_children X ty sub1 rs = (Inr ns', sub')" and
    ns: "ns = n # ns'"
    by (auto split: prod.splits sum.splits)
  from walkBuild_inv(1) [of X sub "Final r"] toNode_op [OF t]
  have "\<forall>i\<in>input_refs (Op n). i < length (inputs sub1)"
    by (simp add: walk_inv_def)
  moreover from toNode_children_inv [of X ty sub1 rs] c
  have "length (inputs sub1) \<le> length (inputs sub')" by simp
  ultimately have "\<forall>i\<in>input_refs (Op n). i < length (inputs sub')" by auto
  with Cons.IH [OF c] ns show ?case by simp
qed

lemma toNode_scoped:
  "toNode X ty (w :: ('h, 's) walker) tr = (Inr n, w') \<Longrightarrow> node_scoped n"
  "toNode_children X ty (sub :: ('h, 's) walker) rs = (Inr ns, sub') \<Longrightarrow>
     list_all node_scoped ns"
proof (induction X ty w tr and X ty sub rs arbitrary: n w' and ns sub'
    rule: toNode_toNode_children.induct)
  case (1 X ty w final replacements bindings)
  from "1.prems" obtain op w1 children sub ins sub2 where
    wb: "walkBuild X w final = (Inr op, w1)" and
    tc: "toNode_children X ty \<lparr>env = env w1, split = split w1, inputs = []\<rparr> replacements =
           (Inr children, sub)" and
    fi: "finish sub = (Inr ins, sub2)" and
    n: "n = Node op (results ty (Trace final replacements bindings)) children ins"
    by (auto split: prod.splits sum.splits)
  from "1.IH" [OF wb [symmetric] refl tc] have a: "list_all node_scoped children" .
  from finish_length [of sub ins] fi have "length ins = length (inputs sub)" by simp
  with toNode_children_refs [OF tc]
  have "\<forall>c\<in>set children. \<forall>i\<in>input_refs (Op c). i < length ins" by simp
  with a n show ?case by (simp add: list_all_iff)
next
  case (2 X ty sub)
  then show ?case by simp
next
  case (3 X ty sub r rs)
  from "3.prems" obtain n sub1 ns' where
    t: "toNode X ty sub r = (Inr n, sub1)" and
    c: "toNode_children X ty sub1 rs = (Inr ns', sub')" and
    ns: "ns = n # ns'"
    by (auto split: prod.splits sum.splits)
  from "3.IH"(1) [OF t] "3.IH"(2) [OF t [symmetric] refl c] ns show ?case by simp
qed

lemma toNode_independent:
  assumes "env w1 = env w2" and "split w1 = split w2"
    and "toNode X ty w1 tr = (Inr n1, w1')" and "toNode X ty w2 tr = (Inr n2, w2')"
  shows "Children n1 = Children n2 \<and> Inputs n1 = Inputs n2"
  using toNode_parts [OF assms(3)] toNode_parts [OF assms(4)] assms(1,2) by simp

lemma toTree_parts:
  assumes "toTree X ty tr e s = Inr t"
  shows "\<exists>w'. toNode X ty \<lparr>env = e, split = s, inputs = []\<rparr> tr = (Inr (Root t), w') \<and>
           fst (finish w') = Inr (Tree_Inputs t)"
  using assms by (auto simp: toTree_def split: prod.splits sum.splits)

lemma toTree_root_refs:
  assumes "toTree X ty tr e s = Inr t"
  shows "\<forall>i\<in>input_refs (Op (Root t)). i < length (Tree_Inputs t)"
proof -
  from toTree_parts [OF assms] obtain w' where
    tn: "toNode X ty \<lparr>env = e, split = s, inputs = []\<rparr> tr = (Inr (Root t), w')" and
    fi: "fst (finish w') = Inr (Tree_Inputs t)" by blast
  from walkBuild_inv(1) [of X "\<lparr>env = e, split = s, inputs = []\<rparr>" "Final tr"] toNode_op [OF tn]
  have "\<forall>i\<in>input_refs (Op (Root t)). i < length (inputs w')"
    by (simp add: walk_inv_def)
  with finish_length [OF fi] show ?thesis by simp
qed

lemma toTree_interned:
  assumes "toTree X ty tr e s = Inr t"
  shows "node_interned X ty e s tr (Root t) \<and>
         interned X (inputs (snd (toNode X ty \<lparr>env = e, split = s, inputs = []\<rparr> tr))) \<and>
         fst (finish (snd (toNode X ty \<lparr>env = e, split = s, inputs = []\<rparr> tr))) =
           Inr (Tree_Inputs t)"
proof -
  let ?w0 = "\<lparr>env = e, split = s, inputs = []\<rparr>"
  from toTree_parts [OF assms] obtain w' where
    tn: "toNode X ty ?w0 tr = (Inr (Root t), w')" and
    fi: "fst (finish w') = Inr (Tree_Inputs t)" by blast
  from toNode_interned(1) [OF tn] have a: "node_interned X ty e s tr (Root t)" by simp
  from walkBuild_inv(1) [of X ?w0 "Final tr"] toNode_walker [of X ty ?w0 tr]
  have "interned X (inputs (snd (toNode X ty ?w0 tr)))"
    by (simp add: walk_inv_def)
  with a fi tn show ?thesis by simp
qed

lemma put_first:
  assumes "put X w it = (i, w')"
  shows "((\<exists>k<length (inputs w). fst (merge X (inputs w ! k) (new_input it))) \<longrightarrow>
           i < length (inputs w) \<and> fst (merge X (inputs w ! i) (new_input it)) \<and>
           (\<forall>j<i. \<not> fst (merge X (inputs w ! j) (new_input it))) \<and>
           inputs w' = (inputs w)[i := snd (merge X (inputs w ! i) (new_input it))]) \<and>
         ((\<forall>k<length (inputs w). \<not> fst (merge X (inputs w ! k) (new_input it))) \<longrightarrow>
           i = length (inputs w) \<and> inputs w' = inputs w @ [new_input it])"
proof (cases "put_scan X (inputs w) (new_input it)")
  case None
  with assms have "w' = w\<lparr>inputs := inputs w @ [new_input it]\<rparr>" "i = length (inputs w)"
    by (simp_all add: put_unfold)
  moreover from None have "\<forall>j<length (inputs w). \<not> fst (merge X (inputs w ! j) (new_input it))"
    by (simp add: put_scan_None merge_fst_accepts)
  ultimately show ?thesis by auto
next
  case (Some p)
  obtain k ins where p: "p = (k, ins)" by (cases p)
  with Some assms have "w' = w\<lparr>inputs := ins\<rparr>" "i = k"
    by (simp_all add: put_unfold)
  with put_scan_Some [OF Some [unfolded p]] show ?thesis
    by (auto simp: merge_fst_accepts)
qed



lemmas eval_defs =
  toTree_def put_def merge_def finish_def input_finish_def input_stat_def results_def
  structural_def env_hints_def trace_siblings_def tree_siblings_def walker_hints_def
  iter_t_def iter_b_def iter_u_def table_t_def new_input_def Let_def

lemma toTree_siblings:
  "toTree structural (\<lambda>tr e. 0) trace_siblings env_hints None = Inr tree_siblings"
  by (simp add: eval_defs)

lemma toNode_siblings:
  "toNode structural (\<lambda>tr e. 0) walker_hints trace_siblings =
     (Inr (Root tree_siblings), walker_hints\<lparr>inputs := [new_input iter_t]\<rparr>)"
  by (simp add: eval_defs)

lemma toNode_siblings_other:
  "toNode structural (\<lambda>tr e. 0) (walker_hints\<lparr>inputs := [new_input iter_u]\<rparr>) trace_siblings =
     (Inr (Node (Leaf 1) [] (Children (Root tree_siblings)) (Inputs (Root tree_siblings))),
      walker_hints\<lparr>inputs := [new_input iter_u, new_input iter_t]\<rparr>)"
  by (simp add: eval_defs)

text \<open>
  C1. toNode lowers the final step of a trace in the walker it is called
  on, and that is all it does to this walker. It lowers all the sub-traces of the trace
  in one walker, created empty for this node with the same environment and splitter:
  each sub-trace is lowered in the walker as the sub-trace before it left it, and the
  inputs of the node are what finish makes of this walker after the last sub-trace.
  So the operator of every child refers to entries of the node's input list (and the
  operator of the root to the top-level inputs of the tree), inputs are interned across
  the sibling sub-traces of a node, and never between the sub-traces and the walker the
  node's own operator is lowered in: the children and the inputs of the node do not
  depend on the inputs of that walker.
\<close>

theorem toNode_scopes:
  "snd (toNode X ty w tr) = snd (walkBuild X w (Final tr)) \<and>
   (\<forall>n w'. toNode X ty w tr = (Inr n, w') \<longrightarrow>
      fst (toNode_children X ty \<lparr>env = env w, split = split w, inputs = []\<rparr>
             (Replacements tr)) = Inr (Children n) \<and>
      fst (finish (snd (toNode_children X ty \<lparr>env = env w, split = split w, inputs = []\<rparr>
             (Replacements tr)))) = Inr (Inputs n) \<and>
      node_scoped n) \<and>
   (\<forall>n sub1. toNode X ty sub r = (Inr n, sub1) \<longrightarrow>
      toNode_children X ty sub (r # rs) =
        (case toNode_children X ty sub1 rs of
           (Inl err, sub2) \<Rightarrow> (Inl err, sub2)
         | (Inr ns, sub2) \<Rightarrow> (Inr (n # ns), sub2))) \<and>
   (\<forall>w2 n n2 w' w2'.
      env w2 = env w \<and> split w2 = split w \<and>
      toNode X ty w tr = (Inr n, w') \<and> toNode X ty w2 tr = (Inr n2, w2') \<longrightarrow>
      Children n2 = Children n \<and> Inputs n2 = Inputs n) \<and>
   (\<forall>t. toTree X ty tr e s = Inr t \<longrightarrow>
      node_scoped (Root t) \<and> (\<forall>i\<in>input_refs (Op (Root t)). i < length (Tree_Inputs t)))"
proof -
  have a: "snd (toNode X ty w tr) = snd (walkBuild X w (Final tr))"
    by (rule toNode_walker)
  have b: "\<forall>n w'. toNode X ty w tr = (Inr n, w') \<longrightarrow>
      fst (toNode_children X ty \<lparr>env = env w, split = split w, inputs = []\<rparr>
             (Replacements tr)) = Inr (Children n) \<and>
      fst (finish (snd (toNode_children X ty \<lparr>env = env w, split = split w, inputs = []\<rparr>
             (Replacements tr)))) = Inr (Inputs n) \<and>
      node_scoped n"
    using toNode_parts [of X ty w tr] toNode_scoped(1) [of X ty w tr] by blast
  have c: "\<forall>n sub1. toNode X ty sub r = (Inr n, sub1) \<longrightarrow>
      toNode_children X ty sub (r # rs) =
        (case toNode_children X ty sub1 rs of
           (Inl err, sub2) \<Rightarrow> (Inl err, sub2)
         | (Inr ns, sub2) \<Rightarrow> (Inr (n # ns), sub2))"
    by simp
  have d: "\<forall>w2 n n2 w' w2'.
      env w2 = env w \<and> split w2 = split w \<and>
      toNode X ty w tr = (Inr n, w') \<and> toNode X ty w2 tr = (Inr n2, w2') \<longrightarrow>
      Children n2 = Children n \<and> Inputs n2 = Inputs n"
    using toNode_independent [of _ w X ty tr] by blast
  have e: "\<forall>t. toTree X ty tr e s = Inr t \<longrightarrow>
      node_scoped (Root t) \<and> (\<forall>i\<in>input_refs (Op (Root t)). i < length (Tree_Inputs t))"
  proof (intro allI impI)
    fix t assume t: "toTree X ty tr e s = Inr t"
    from toTree_parts [OF t] toNode_scoped(1) have "node_scoped (Root t)" by blast
    with toTree_root_refs [OF t]
    show "node_scoped (Root t) \<and> (\<forall>i\<in>input_refs (Op (Root t)). i < length (Tree_Inputs t))"
      by simp
  qed
  from a b c d e show ?thesis by blast
qed

theorem toNode_scopes_witness:
  "node_scoped (Root tree_siblings) \<and>
   input_refs (Op (Root tree_siblings)) \<subseteq> {..<length (Tree_Inputs tree_siblings)} \<and>
   fst (finish (snd (toNode_children structural (\<lambda>tr e. 0) walker_hints
          (Replacements trace_siblings)))) = Inr (Inputs (Root tree_siblings)) \<and>
   snd (toNode structural (\<lambda>tr e. 0) walker_hints trace_siblings) =
     walker_hints\<lparr>inputs := [new_input iter_t]\<rparr> \<and>
   fst (toNode structural (\<lambda>tr e. 0) (walker_hints\<lparr>inputs := [new_input iter_u]\<rparr>)
          trace_siblings) =
     Inr (Node (Leaf 1) [] (Children (Root tree_siblings)) (Inputs (Root tree_siblings)))"
proof -
  note inst = toNode_scopes [of structural "\<lambda>tr e. 0" walker_hints trace_siblings
      walker_hints "Trace (pir_IterTable iter_t) [] []" "[]" env_hints None]
  have w0: "\<lparr>env = env walker_hints, split = split walker_hints, inputs = []\<rparr> = walker_hints"
    by (simp add: walker_hints_def)
  from inst toTree_siblings
  have a: "node_scoped (Root tree_siblings) \<and>
      input_refs (Op (Root tree_siblings)) \<subseteq> {..<length (Tree_Inputs tree_siblings)}"
    by blast
  from inst toNode_siblings
  have b: "fst (finish (snd (toNode_children structural (\<lambda>tr e. 0)
          \<lparr>env = env walker_hints, split = split walker_hints, inputs = []\<rparr>
          (Replacements trace_siblings)))) = Inr (Inputs (Root tree_siblings))"
    by blast
  from inst have "snd (toNode structural (\<lambda>tr e. 0) walker_hints trace_siblings) =
      snd (walkBuild structural walker_hints (Final trace_siblings))"
    by blast
  then have c: "snd (toNode structural (\<lambda>tr e. 0) walker_hints trace_siblings) =
      walker_hints\<lparr>inputs := [new_input iter_t]\<rparr>"
    by (simp add: toNode_siblings)
  obtain n2 w2' where t2: "toNode structural (\<lambda>tr e. 0)
      (walker_hints\<lparr>inputs := [new_input iter_u]\<rparr>) trace_siblings = (Inr n2, w2')"
    by (simp add: toNode_siblings_other)
  have "env (walker_hints\<lparr>inputs := [new_input iter_u]\<rparr>) = env walker_hints \<and>
      split (walker_hints\<lparr>inputs := [new_input iter_u]\<rparr>) = split walker_hints"
    by simp
  with inst toNode_siblings t2
  have "Children n2 = Children (Root tree_siblings) \<and> Inputs n2 = Inputs (Root tree_siblings)"
    by blast
  with t2 have d: "fst (toNode structural (\<lambda>tr e. 0)
      (walker_hints\<lparr>inputs := [new_input iter_u]\<rparr>) trace_siblings) =
      Inr (Node (Leaf 1) [] (Children (Root tree_siblings)) (Inputs (Root tree_siblings)))"
    by (simp add: toNode_siblings_other)
  from a b c d show ?thesis
    by (simp add: w0)
qed

theorem toTree_siblings_counterexample:
  "toTree structural (\<lambda>tr e. 0)
     (Trace (pir_IterTable iter_t)
        [Trace (pir_IterTable iter_t) [] [], Trace (pir_IterTable iter_b) [] []] [])
     env_hints None =
   Inr (Tree (Node (Leaf 0) [] [Node (Leaf 0) [] [] [], Node (Leaf 0) [] [] []]
               [Input table_t
                  (Handle \<lparr>Filter = None, Fields = [''a'', ''b''], AllFields = False\<rparr>)])
            [Input table_t (Handle \<lparr>Filter = None, Fields = [''a''], AllFields = False\<rparr>)])"
  by (simp add: eval_defs)


text \<open>
  C2. put scans the inputs of the walker in order and returns the index of the first
  input whose merge accepts the new table reference, which is merged into that input; it
  appends a new input, at index len(inputs), only when no input accepts it. So an input
  list that is interned (no entry has a table that Table.Equals and a filter that
  expr.Equal hold of with a later entry; with symmetric comparisons: no two entries have
  equal tables and equal filters) stays interned, and the input list of every
  node of a finished tree, and the top-level one, is what finish makes, entry by entry
  and with the same tables, of an interned list of inputs.
\<close>

theorem put_interning:
  "(\<forall>i w'. put X w it = (i, w') \<longrightarrow>
      env w' = env w \<and> split w' = split w \<and>
      ((\<exists>k<length (inputs w). fst (merge X (inputs w ! k) (new_input it))) \<longrightarrow>
         i < length (inputs w) \<and> fst (merge X (inputs w ! i) (new_input it)) \<and>
         (\<forall>j<i. \<not> fst (merge X (inputs w ! j) (new_input it))) \<and>
         inputs w' = (inputs w)[i := snd (merge X (inputs w ! i) (new_input it))]) \<and>
      ((\<forall>k<length (inputs w). \<not> fst (merge X (inputs w ! k) (new_input it))) \<longrightarrow>
         i = length (inputs w) \<and> inputs w' = inputs w @ [new_input it]) \<and>
      (interned X (inputs w) \<longrightarrow> interned X (inputs w'))) \<and>
   (\<forall>n w'. toNode X ty w tr = (Inr n, w') \<longrightarrow> node_interned X ty (env w) (split w) tr n) \<and>
   (\<forall>t. toTree X ty tr e s = Inr t \<longrightarrow>
      node_interned X ty e s tr (Root t) \<and>
      interned X (inputs (snd (toNode X ty \<lparr>env = e, split = s, inputs = []\<rparr> tr))) \<and>
      fst (finish (snd (toNode X ty \<lparr>env = e, split = s, inputs = []\<rparr> tr))) =
        Inr (Tree_Inputs t)) \<and>
   (\<forall>outs. fst (finish w) = Inr outs \<longrightarrow> map Input_Table outs = map table (inputs w)) \<and>
   (interned X ins \<longleftrightarrow>
      (\<forall>a b. a < b \<and> b < length ins \<longrightarrow>
         \<not> (Equals X (table (ins ! a)) (table (ins ! b)) \<and>
            Equal X (Filter (hints (ins ! a))) (Filter (hints (ins ! b)))))) \<and>
   ((\<forall>t u. Equals X t u \<longrightarrow> Equals X u t) \<and> (\<forall>f g. Equal X f g \<longrightarrow> Equal X g f) \<and>
    interned X ins \<longrightarrow>
      (\<forall>a b. a \<noteq> b \<and> a < length ins \<and> b < length ins \<longrightarrow>
         \<not> (Equals X (table (ins ! a)) (table (ins ! b)) \<and>
            Equal X (Filter (hints (ins ! a))) (Filter (hints (ins ! b))))))"
proof -
  have a: "\<forall>i w'. put X w it = (i, w') \<longrightarrow>
      env w' = env w \<and> split w' = split w \<and>
      ((\<exists>k<length (inputs w). fst (merge X (inputs w ! k) (new_input it))) \<longrightarrow>
         i < length (inputs w) \<and> fst (merge X (inputs w ! i) (new_input it)) \<and>
         (\<forall>j<i. \<not> fst (merge X (inputs w ! j) (new_input it))) \<and>
         inputs w' = (inputs w)[i := snd (merge X (inputs w ! i) (new_input it))]) \<and>
      ((\<forall>k<length (inputs w). \<not> fst (merge X (inputs w ! k) (new_input it))) \<longrightarrow>
         i = length (inputs w) \<and> inputs w' = inputs w @ [new_input it]) \<and>
      (interned X (inputs w) \<longrightarrow> interned X (inputs w'))"
  proof (intro allI impI)
    fix i w' assume p: "put X w it = (i, w')"
    from put_inv [OF p] put_first [OF p]
    show "env w' = env w \<and> split w' = split w \<and>
      ((\<exists>k<length (inputs w). fst (merge X (inputs w ! k) (new_input it))) \<longrightarrow>
         i < length (inputs w) \<and> fst (merge X (inputs w ! i) (new_input it)) \<and>
         (\<forall>j<i. \<not> fst (merge X (inputs w ! j) (new_input it))) \<and>
         inputs w' = (inputs w)[i := snd (merge X (inputs w ! i) (new_input it))]) \<and>
      ((\<forall>k<length (inputs w). \<not> fst (merge X (inputs w ! k) (new_input it))) \<longrightarrow>
         i = length (inputs w) \<and> inputs w' = inputs w @ [new_input it]) \<and>
      (interned X (inputs w) \<longrightarrow> interned X (inputs w'))"
      by blast
  qed
  have b: "\<forall>n w'. toNode X ty w tr = (Inr n, w') \<longrightarrow>
      node_interned X ty (env w) (split w) tr n"
    using toNode_interned(1) by blast
  have c: "\<forall>t. toTree X ty tr e s = Inr t \<longrightarrow>
      node_interned X ty e s tr (Root t) \<and>
      interned X (inputs (snd (toNode X ty \<lparr>env = e, split = s, inputs = []\<rparr> tr))) \<and>
      fst (finish (snd (toNode X ty \<lparr>env = e, split = s, inputs = []\<rparr> tr))) =
        Inr (Tree_Inputs t)"
    using toTree_interned by blast
  have d: "\<forall>outs. fst (finish w) = Inr outs \<longrightarrow> map Input_Table outs = map table (inputs w)"
    using finish_tables by blast
  have e: "interned X ins \<longleftrightarrow>
      (\<forall>a b. a < b \<and> b < length ins \<longrightarrow>
         \<not> (Equals X (table (ins ! a)) (table (ins ! b)) \<and>
            Equal X (Filter (hints (ins ! a))) (Filter (hints (ins ! b)))))"
    by (simp add: interned_nth accepts_def)
  have f: "(\<forall>t u. Equals X t u \<longrightarrow> Equals X u t) \<and> (\<forall>f g. Equal X f g \<longrightarrow> Equal X g f) \<and>
    interned X ins \<longrightarrow>
      (\<forall>a b. a \<noteq> b \<and> a < length ins \<and> b < length ins \<longrightarrow>
         \<not> (Equals X (table (ins ! a)) (table (ins ! b)) \<and>
            Equal X (Filter (hints (ins ! a))) (Filter (hints (ins ! b)))))"
  proof (intro impI allI)
    fix a b
    assume sym: "(\<forall>t u. Equals X t u \<longrightarrow> Equals X u t) \<and>
        (\<forall>f g. Equal X f g \<longrightarrow> Equal X g f) \<and> interned X ins"
      and ab: "a \<noteq> b \<and> a < length ins \<and> b < length ins"
    from sym have lt: "\<And>a b. a < b \<Longrightarrow> b < length ins \<Longrightarrow>
        \<not> (Equals X (table (ins ! a)) (table (ins ! b)) \<and>
           Equal X (Filter (hints (ins ! a))) (Filter (hints (ins ! b))))"
      by (simp add: interned_nth accepts_def)
    from ab consider "a < b" | "b < a" by linarith
    then show "\<not> (Equals X (table (ins ! a)) (table (ins ! b)) \<and>
        Equal X (Filter (hints (ins ! a))) (Filter (hints (ins ! b))))"
    proof cases
      case 1
      with lt [of a b] ab show ?thesis by simp
    next
      case 2
      with lt [of b a] ab sym show ?thesis by blast
    qed
  qed
  from a b c d e f show ?thesis by blast
qed

theorem put_interning_witness:
  "fst (put structural (walker_hints\<lparr>inputs := [new_input iter_t]\<rparr>) iter_b) = 0 \<and>
   inputs (snd (put structural (walker_hints\<lparr>inputs := [new_input iter_t]\<rparr>) iter_b)) =
     [\<lparr>table = table_t,
       hints = \<lparr>Filter = None, Fields = [''a'', ''b''], AllFields = False\<rparr>,
       handle = nil_handle\<rparr>] \<and>
   fst (put structural (walker_hints\<lparr>inputs := [new_input iter_t]\<rparr>) iter_u) = 1 \<and>
   inputs (snd (put structural (walker_hints\<lparr>inputs := [new_input iter_t]\<rparr>) iter_u)) =
     [new_input iter_t, new_input iter_u] \<and>
   interned structural [new_input iter_t, new_input iter_u :: Hints input] \<and>
   node_interned structural (\<lambda>tr e. 0) env_hints None trace_siblings (Root tree_siblings) \<and>
   map Input_Table (Tree_Inputs tree_siblings) = [table_t] \<and>
   \<not> (Equals structural (table (new_input iter_u :: Hints input))
                           (table (new_input iter_t :: Hints input)) \<and>
      Equal structural (Filter (hints (new_input iter_u :: Hints input)))
                       (Filter (hints (new_input iter_t :: Hints input))))"
proof -
  let ?w = "walker_hints\<lparr>inputs := [new_input iter_t]\<rparr>"
  let ?ty = "\<lambda>(tr::Trace) (e::node). 0 :: TypeSet"
  note inst = put_interning [of structural _ _ ?ty trace_siblings env_hints None]
  note on_put = inst [THEN conjunct1, rule_format]
  note on_tree = inst [THEN conjunct2, THEN conjunct2, THEN conjunct1, rule_format]
  note on_finish = inst [THEN conjunct2, THEN conjunct2, THEN conjunct2, THEN conjunct1,
      rule_format]
  note on_sym = inst [THEN conjunct2, THEN conjunct2, THEN conjunct2, THEN conjunct2,
      THEN conjunct2, rule_format]
  obtain i w' where pb: "put structural ?w iter_b = (i, w')"
    by (cases "put structural ?w iter_b")
  have ex: "\<exists>k<length (inputs ?w). fst (merge structural (inputs ?w ! k) (new_input iter_b))"
    by (rule exI [of _ 0]) (simp add: eval_defs)
  from on_put [OF pb] ex have "i < length (inputs ?w) \<and>
      inputs w' = (inputs ?w)[i := snd (merge structural (inputs ?w ! i) (new_input iter_b))]"
    by simp
  then have b: "i = 0 \<and> inputs w' =
      [\<lparr>table = table_t,
        hints = \<lparr>Filter = None, Fields = [''a'', ''b''], AllFields = False\<rparr>,
        handle = nil_handle\<rparr>]"
    by (auto simp: eval_defs)
  obtain j w'' where pu: "put structural ?w iter_u = (j, w'')"
    by (cases "put structural ?w iter_u")
  have no: "\<forall>k<length (inputs ?w). \<not> fst (merge structural (inputs ?w ! k) (new_input iter_u))"
    by (simp add: eval_defs)
  from on_put [OF pu] no have u0: "j = length (inputs ?w) \<and>
      inputs w'' = inputs ?w @ [new_input iter_u]"
    by simp
  then have u: "j = 1 \<and> inputs w'' = [new_input iter_t, new_input iter_u]"
    by simp
  have "interned structural (inputs ?w)"
    by simp
  with on_put [OF pu] have "interned structural (inputs w'')"
    by simp
  with u have int: "interned structural [new_input iter_t, new_input iter_u :: Hints input]"
    by simp
  have w0: "\<lparr>env = env_hints, split = None, inputs = []\<rparr> = walker_hints"
    by (simp add: walker_hints_def)
  note tree = on_tree [OF toTree_siblings, unfolded w0]
  from tree have n: "node_interned structural ?ty env_hints None trace_siblings
      (Root tree_siblings)"
    by (rule conjunct1)
  from tree have "fst (finish (snd (toNode structural ?ty walker_hints trace_siblings))) =
      Inr (Tree_Inputs tree_siblings)"
    by simp
  from on_finish [OF this]
  have "map Input_Table (Tree_Inputs tree_siblings) =
      map table (inputs (snd (toNode structural ?ty walker_hints trace_siblings)))" .
  then have m: "map Input_Table (Tree_Inputs tree_siblings) = [table_t]"
    by (simp add: toNode_siblings new_input_def iter_t_def)
  have sym: "(\<forall>t u. Equals structural t u \<longrightarrow> Equals structural u t) \<and>
      (\<forall>f g. Equal structural f g \<longrightarrow> Equal structural g f) \<and>
      interned structural [new_input iter_t, new_input iter_u :: Hints input]"
    using int by (simp add: structural_def)
  have "(1::nat) \<noteq> 0 \<and> 1 < length [new_input iter_t, new_input iter_u :: Hints input] \<and>
      0 < length [new_input iter_t, new_input iter_u :: Hints input]"
    by simp
  from on_sym [OF sym this]
  have ns: "\<not> (Equals structural (table (new_input iter_u :: Hints input))
                           (table (new_input iter_t :: Hints input)) \<and>
      Equal structural (Filter (hints (new_input iter_u :: Hints input)))
                       (Filter (hints (new_input iter_t :: Hints input))))"
    by simp
  from b u int n m pb pu ns show ?thesis by simp
qed

end
